theory Spec2Isabelle
  imports Complex_Main
begin

section \<open>Data model (model/types.ts)\<close>

text \<open>
  JavaScript numbers are modelled as exact reals: every statement below is about the
  program in exact arithmetic. Optional fields (\<open>rotation?\<close>, \<open>magnitude?\<close>, ...)
  are \<open>option\<close> values, \<open>None\<close> standing for \<open>undefined\<close>.
\<close>

record Material =
  mat_id :: string
  mat_E :: real
  mat_G :: real
  mat_nu :: real
  mat_rho :: real

record Section =
  sec_id :: string
  sec_A :: real
  sec_Iy :: real
  sec_Iz :: real
  sec_J :: real

record Node =
  node_id :: string
  node_x :: real
  node_y :: real
  node_z :: real

record NodeDOF =
  dof_dx :: real
  dof_dy :: real
  dof_dz :: real
  dof_rx :: real
  dof_ry :: real
  dof_rz :: real

record NodeResult =
  nr_nodeId :: string
  nr_displacement :: NodeDOF
  nr_reaction :: NodeDOF

text \<open>The optional \<open>releases\<close> field of a member is never read by the analysis code.\<close>

record Member =
  mem_id :: string
  mem_iNode :: string
  mem_jNode :: string
  mem_material :: string
  mem_section :: string
  mem_rotation :: "real option"

record MemberForces =
  mf_x :: real
  mf_axial :: real
  mf_shearY :: real
  mf_shearZ :: real
  mf_torsion :: real
  mf_momentY :: real
  mf_momentZ :: real

record MaxForce =
  mx_value :: real
  mx_location :: real

record MaxForces =
  max_axial :: MaxForce
  max_shearY :: MaxForce
  max_shearZ :: MaxForce
  max_momentY :: MaxForce
  max_momentZ :: MaxForce

record MemberResult =
  mr_memberId :: string
  mr_forces :: "MemberForces list"
  mr_maxForces :: MaxForces

record Support =
  sup_node :: string
  sup_dx :: bool
  sup_dy :: bool
  sup_dz :: bool
  sup_rx :: bool
  sup_ry :: bool
  sup_rz :: bool

datatype MemberLoadType = Distributed | Point | Moment

record NodeLoad =
  nl_node :: string
  nl_direction :: string
  nl_magnitude :: real

record MemberLoad =
  ml_member :: string
  ml_type :: MemberLoadType
  ml_direction :: string
  ml_magnitude :: "real option"
  ml_w1 :: "real option"
  ml_w2 :: "real option"
  ml_x1 :: "real option"
  ml_x2 :: "real option"
  ml_x :: "real option"

record LoadCase =
  lc_name :: string
  lc_nodeLoads :: "NodeLoad list"
  lc_memberLoads :: "MemberLoad list"

text \<open>\<open>factors\<close> is the list that \<open>Object.entries\<close> yields for the factor object.\<close>

record LoadCombination =
  combo_name :: string
  combo_factors :: "(string \<times> real) list"

record StanalModel =
  materials :: "Material list"
  sections :: "Section list"
  nodes :: "Node list"
  members :: "Member list"
  supports :: "Support list"
  loadCases :: "LoadCase list"
  loadCombinations :: "LoadCombination list"

record NodeExtremum =
  ne_nodeId :: string
  ne_value :: real
  ne_direction :: string

record MemberExtremum =
  me_memberId :: string
  me_value :: real
  me_location :: real

record Summary =
  maxDisplacement :: NodeExtremum
  maxReaction :: NodeExtremum
  maxMoment :: MemberExtremum
  maxShear :: MemberExtremum

text \<open>
  Every \<open>throw\<close> of the code is a value of \<open>error\<close>; each constructor stands for the
  \<open>Error\<close> object with the message given beside it.
\<close>

datatype error =
    MemberZeroLength string     \<comment> \<open>\<open>Member <id> has zero length\<close> (element constructor)\<close>
  | ZeroLength                  \<comment> \<open>\<open>Member has zero length\<close> (createRotationMatrix)\<close>
  | MultiplyDim nat nat nat nat \<comment> \<open>\<open>Cannot multiply RxC with RxC\<close>\<close>
  | VectorLength                \<comment> \<open>\<open>Vector length must match matrix columns\<close>\<close>
  | NotSquare                   \<comment> \<open>\<open>Matrix must be square for solving\<close>\<close>
  | RhsLength                   \<comment> \<open>\<open>Vector b length must match matrix rows\<close>\<close>
  | Singular                    \<comment> \<open>\<open>Matrix is singular or nearly singular\<close>\<close>
  | CombinationNotFound string  \<comment> \<open>\<open>Load combination '<name>' not found\<close>\<close>
  | TypeError                   \<comment> \<open>the runtime's TypeError on reading a property of \<open>undefined\<close>\<close>

record AnalysisResult =
  res_success :: bool
  res_error :: "error option"
  res_loadCase :: string
  res_nodes :: "NodeResult list"
  res_members :: "MemberResult list"
  res_summary :: Summary

section \<open>Dense matrices (analysis/Matrix.ts)\<close>

record Matrix =
  rows :: nat
  cols :: nat
  data :: "real list list"

definition Matrix_new :: "nat \<Rightarrow> nat \<Rightarrow> real \<Rightarrow> Matrix" where
  "Matrix_new r c initialValue =
     \<lparr>rows = r, cols = c, data = replicate r (replicate c initialValue)\<rparr>"

definition zeros :: "nat \<Rightarrow> nat \<Rightarrow> Matrix" where
  "zeros r c = Matrix_new r c 0"

text \<open>
  \<open>get\<close>, \<open>set\<close> and \<open>add\<close> index \<open>data[row][col]\<close> without a check. Every call in the
  analysis code is in range, except the read of \<open>A[-1][-1]\<close> in \<open>solve\<close> on an empty
  matrix, which is written out there as the TypeError it raises.
\<close>

definition get :: "Matrix \<Rightarrow> nat \<Rightarrow> nat \<Rightarrow> real" where
  "get m row col = data m ! row ! col"

definition set_m :: "Matrix \<Rightarrow> nat \<Rightarrow> nat \<Rightarrow> real \<Rightarrow> Matrix" where
  "set_m m row col v = m\<lparr>data := (data m)[row := (data m ! row)[col := v]]\<rparr>"

definition add_m :: "Matrix \<Rightarrow> nat \<Rightarrow> nat \<Rightarrow> real \<Rightarrow> Matrix" where
  "add_m m row col v = set_m m row col (get m row col + v)"

text \<open>\<open>fromArray\<close>: \<open>cols\<close> is the length of the first row; a missing entry reads as 0.\<close>

definition fromArray :: "real list list \<Rightarrow> Matrix" where
  "fromArray arr =
     (let r = length arr;
          c = (case arr of [] \<Rightarrow> 0 | a # _ \<Rightarrow> length a)
      in \<lparr>rows = r, cols = c,
          data = map (\<lambda>i. map (\<lambda>j. if j < length (arr ! i) then arr ! i ! j else 0) [0..<c])
                     [0..<r]\<rparr>)"

text \<open>The accumulation loop \<open>sum = 0; for k: sum += f k\<close>.\<close>

definition sum_loop :: "(nat \<Rightarrow> real) \<Rightarrow> nat \<Rightarrow> real" where
  "sum_loop f n = fold (\<lambda>k s. s + f k) [0..<n] 0"

definition multiply :: "Matrix \<Rightarrow> Matrix \<Rightarrow> error + Matrix" where
  "multiply a b =
     (if cols a \<noteq> rows b then Inl (MultiplyDim (rows a) (cols a) (rows b) (cols b))
      else Inr \<lparr>rows = rows a, cols = cols b,
                data = map (\<lambda>i. map (\<lambda>j. sum_loop (\<lambda>k. get a i k * get b k j) (cols a))
                                      [0..<cols b])
                           [0..<rows a]\<rparr>)"

definition multiplyVector :: "Matrix \<Rightarrow> real list \<Rightarrow> error + real list" where
  "multiplyVector a vec =
     (if cols a \<noteq> length vec then Inl VectorLength
      else Inr (map (\<lambda>i. sum_loop (\<lambda>j. get a i j * vec ! j) (cols a)) [0..<rows a]))"

definition transpose_m :: "Matrix \<Rightarrow> Matrix" where
  "transpose_m a =
     \<lparr>rows = cols a, cols = rows a,
      data = map (\<lambda>j. map (\<lambda>i. get a i j) [0..<rows a]) [0..<cols a]\<rparr>"

definition subMatrix :: "Matrix \<Rightarrow> nat list \<Rightarrow> nat list \<Rightarrow> Matrix" where
  "subMatrix a rowIndices colIndices =
     \<lparr>rows = length rowIndices, cols = length colIndices,
      data = map (\<lambda>r. map (\<lambda>c. get a r c) colIndices) rowIndices\<rparr>"

definition extractVector :: "real list \<Rightarrow> nat list \<Rightarrow> real list" where
  "extractVector vec indices = map (\<lambda>i. vec ! i) indices"

definition setVector :: "real list \<Rightarrow> nat list \<Rightarrow> real list \<Rightarrow> real list" where
  "setVector vec indices vals =
     fold (\<lambda>i v. v[indices ! i := vals ! i]) [0..<length indices] vec"

definition clone :: "Matrix \<Rightarrow> Matrix" where
  "clone a =
     \<lparr>rows = rows a, cols = cols a,
      data = map (\<lambda>i. map (\<lambda>j. get a i j) [0..<cols a]) [0..<rows a]\<rparr>"

text \<open>A loop whose body may throw: the first error ends it.\<close>

fun foldE :: "('a \<Rightarrow> 's \<Rightarrow> error + 's) \<Rightarrow> 'a list \<Rightarrow> 's \<Rightarrow> error + 's" where
  "foldE f [] s = Inr s"
| "foldE f (x # xs) s = (case f x s of Inl e \<Rightarrow> Inl e | Inr s' \<Rightarrow> foldE f xs s')"

definition bindE :: "error + 'a \<Rightarrow> ('a \<Rightarrow> error + 'b) \<Rightarrow> error + 'b" where
  "bindE m f = (case m of Inl e \<Rightarrow> Inl e | Inr v \<Rightarrow> f v)"

subsection \<open>solve: Gaussian elimination with partial pivoting\<close>

text \<open>
  The state of the elimination is the working copy \<open>A\<close> and the right-hand side \<open>x\<close>.
  The permutation array \<open>pivot\<close> of the source is written but never read, and is left out.
\<close>

definition findPivot :: "Matrix \<Rightarrow> nat \<Rightarrow> nat \<Rightarrow> real \<times> nat" where
  "findPivot A n k =
     fold (\<lambda>i (maxVal, maxRow).
             if \<bar>get A i k\<bar> > maxVal then (\<bar>get A i k\<bar>, i) else (maxVal, maxRow))
          [Suc k..<n] (\<bar>get A k k\<bar>, k)"

definition swapRows :: "Matrix \<Rightarrow> nat \<Rightarrow> nat \<Rightarrow> nat \<Rightarrow> Matrix" where
  "swapRows A n k maxRow =
     fold (\<lambda>j A. let temp = get A k j in set_m (set_m A k j (get A maxRow j)) maxRow j temp)
          [0..<n] A"

definition swapEntries :: "real list \<Rightarrow> nat \<Rightarrow> nat \<Rightarrow> real list" where
  "swapEntries x k maxRow = (let temp = x ! k in (x[k := x ! maxRow])[maxRow := temp])"

definition eliminateRow :: "nat \<Rightarrow> nat \<Rightarrow> real \<Rightarrow> nat \<Rightarrow> Matrix \<times> real list \<Rightarrow> Matrix \<times> real list" where
  "eliminateRow n k akk i = (\<lambda>(A, x).
     let factor = get A i k / akk;
         A1 = set_m A i k factor;
         A2 = fold (\<lambda>j A. set_m A i j (get A i j - factor * get A k j)) [Suc k..<n] A1
     in (A2, x[i := x ! i - factor * x ! k]))"

definition eliminationStep :: "nat \<Rightarrow> nat \<Rightarrow> Matrix \<times> real list \<Rightarrow> error + Matrix \<times> real list" where
  "eliminationStep n k = (\<lambda>(A, x).
     let maxRow = snd (findPivot A n k);
         (A1, x1) = (if maxRow \<noteq> k then (swapRows A n k maxRow, swapEntries x k maxRow)
                     else (A, x));
         akk = get A1 k k
     in if \<bar>akk\<bar> < 1 / 10 ^ 12 then Inl Singular
        else Inr (fold (eliminateRow n k akk) [Suc k..<n] (A1, x1)))"

definition backSubstituteRow :: "Matrix \<Rightarrow> nat \<Rightarrow> nat \<Rightarrow> real list \<Rightarrow> real list" where
  "backSubstituteRow A n i x =
     (let x1 = fold (\<lambda>j x. x[i := x ! i - get A i j * x ! j]) [Suc i..<n] x
      in x1[i := x1 ! i / get A i i])"

definition backSubstitute :: "Matrix \<Rightarrow> nat \<Rightarrow> real list \<Rightarrow> real list" where
  "backSubstitute A n x = fold (backSubstituteRow A n) (rev [0..<n]) x"

definition solve :: "Matrix \<Rightarrow> real list \<Rightarrow> error + real list" where
  "solve this b =
     (if rows this \<noteq> cols this then Inl NotSquare
      else if rows this \<noteq> length b then Inl RhsLength
      else
        let n = rows this in
        bindE (foldE (eliminationStep n) [0..<n - 1] (clone this, b)) (\<lambda>(A, x).
          if n = 0 then Inl TypeError
          else if \<bar>get A (n - 1) (n - 1)\<bar> < 1 / 10 ^ 12 then Inl Singular
          else Inr (backSubstitute A n x)))"

subsection \<open>Rotation and transformation matrices\<close>

definition createRotationMatrix :: "Node \<Rightarrow> Node \<Rightarrow> real \<Rightarrow> error + Matrix" where
  "createRotationMatrix iNode jNode rotation =
     (let dx = node_x jNode - node_x iNode;
          dy = node_y jNode - node_y iNode;
          dz = node_z jNode - node_z iNode;
          L = sqrt (dx * dx + dy * dy + dz * dz)
      in if L < 1 / 10 ^ 10 then Inl ZeroLength
         else
           let cx = dx / L; cy = dy / L; cz = dz / L;
               xLocal = [cx, cy, cz];
               horizontalLength = sqrt (cx * cx + cz * cz);
               yLocal = (if horizontalLength < 1 / 10 ^ 10
                         then (if cy > 0 then [-1, 0, 0] else [1, 0, 0])
                         else [- cy * cx / horizontalLength,
                               horizontalLength,
                               - cy * cz / horizontalLength]);
               zLocal = [xLocal ! 1 * yLocal ! 2 - xLocal ! 2 * yLocal ! 1,
                         xLocal ! 2 * yLocal ! 0 - xLocal ! 0 * yLocal ! 2,
                         xLocal ! 0 * yLocal ! 1 - xLocal ! 1 * yLocal ! 0];
               (yLocal', zLocal') =
                 (if \<bar>rotation\<bar> > 1 / 10 ^ 10
                  then let rad = rotation * pi / 180; c = cos rad; s = sin rad
                       in ([yLocal ! 0 * c + zLocal ! 0 * s,
                            yLocal ! 1 * c + zLocal ! 1 * s,
                            yLocal ! 2 * c + zLocal ! 2 * s],
                           [- yLocal ! 0 * s + zLocal ! 0 * c,
                            - yLocal ! 1 * s + zLocal ! 1 * c,
                            - yLocal ! 2 * s + zLocal ! 2 * c])
                  else (yLocal, zLocal))
           in Inr (transpose_m (fromArray [xLocal, yLocal', zLocal'])))"

definition createTransformationMatrix :: "Node \<Rightarrow> Node \<Rightarrow> real \<Rightarrow> error + Matrix" where
  "createTransformationMatrix iNode jNode rotation =
     bindE (createRotationMatrix iNode jNode rotation) (\<lambda>R.
       Inr (fold (\<lambda>block T.
                    let offset = block * 3 in
                    fold (\<lambda>i T. fold (\<lambda>j T. set_m T (offset + i) (offset + j) (get R i j))
                                      [0..<3] T)
                         [0..<3] T)
                 [0..<4] (zeros 12 12)))"

section \<open>The frame element (analysis/Member3DElement.ts)\<close>

record Member3DElement =
  el_id :: string
  el_iNode :: Node
  el_jNode :: Node
  el_material :: Material
  el_section :: Section
  el_rotation :: real
  el_length :: real

text \<open>The constructor: \<open>member.rotation || 0\<close>, the cached length, and the zero-length throw.\<close>

definition new_Member3DElement ::
    "Member \<Rightarrow> Node \<Rightarrow> Node \<Rightarrow> Material \<Rightarrow> Section \<Rightarrow> error + Member3DElement" where
  "new_Member3DElement member iNode jNode material section =
     (let dx = node_x jNode - node_x iNode;
          dy = node_y jNode - node_y iNode;
          dz = node_z jNode - node_z iNode;
          len = sqrt (dx * dx + dy * dy + dz * dz)
      in if len < 1 / 10 ^ 10 then Inl (MemberZeroLength (mem_id member))
         else Inr \<lparr>el_id = mem_id member, el_iNode = iNode, el_jNode = jNode,
                   el_material = material, el_section = section,
                   el_rotation = (case mem_rotation member of None \<Rightarrow> 0 | Some r \<Rightarrow> r),
                   el_length = len\<rparr>)"

definition localStiffnessMatrix :: "Member3DElement \<Rightarrow> Matrix" where
  "localStiffnessMatrix this =
     (let E = mat_E (el_material this);
          G = mat_G (el_material this);
          A = sec_A (el_section this);
          Iy = sec_Iy (el_section this);
          Iz = sec_Iz (el_section this);
          J = sec_J (el_section this);
          L = el_length this;
          L2 = L * L;
          L3 = L2 * L;
          EA_L = E * A / L;
          GJ_L = G * J / L;
          EIz = E * Iz;
          k_y1 = 12 * EIz / L3;
          k_y2 = 6 * EIz / L2;
          k_y3 = 4 * EIz / L;
          k_y4 = 2 * EIz / L;
          EIy = E * Iy;
          k_z1 = 12 * EIy / L3;
          k_z2 = 6 * EIy / L2;
          k_z3 = 4 * EIy / L;
          k_z4 = 2 * EIy / L
      in fold (\<lambda>(r, c, v) k. set_m k r c v)
           [(0, 0, EA_L), (0, 6, - EA_L), (6, 0, - EA_L), (6, 6, EA_L),
            (1, 1, k_y1), (1, 5, k_y2), (1, 7, - k_y1), (1, 11, k_y2),
            (5, 1, k_y2), (5, 5, k_y3), (5, 7, - k_y2), (5, 11, k_y4),
            (7, 1, - k_y1), (7, 5, - k_y2), (7, 7, k_y1), (7, 11, - k_y2),
            (11, 1, k_y2), (11, 5, k_y4), (11, 7, - k_y2), (11, 11, k_y3),
            (2, 2, k_z1), (2, 4, - k_z2), (2, 8, - k_z1), (2, 10, - k_z2),
            (4, 2, - k_z2), (4, 4, k_z3), (4, 8, k_z2), (4, 10, k_z4),
            (8, 2, - k_z1), (8, 4, k_z2), (8, 8, k_z1), (8, 10, k_z2),
            (10, 2, - k_z2), (10, 4, k_z4), (10, 8, k_z2), (10, 10, k_z3),
            (3, 3, GJ_L), (3, 9, - GJ_L), (9, 3, - GJ_L), (9, 9, GJ_L)]
           (zeros 12 12))"

definition transformationMatrix :: "Member3DElement \<Rightarrow> error + Matrix" where
  "transformationMatrix this =
     createTransformationMatrix (el_iNode this) (el_jNode this) (el_rotation this)"

definition globalStiffnessMatrix :: "Member3DElement \<Rightarrow> error + Matrix" where
  "globalStiffnessMatrix this =
     (let kLocal = localStiffnessMatrix this in
      bindE (transformationMatrix this) (\<lambda>T.
        let Tt = transpose_m T in
        bindE (multiply Tt kLocal) (\<lambda>TtK. multiply TtK T)))"

text \<open>\<open>fer[i] += v\<close> on the 12-entry local force vector.\<close>

definition addTo :: "real list \<Rightarrow> nat \<Rightarrow> real \<Rightarrow> real list" where
  "addTo fer i v = fer[i := fer ! i + v]"

definition addUniformLoadFER ::
    "real list \<Rightarrow> string \<Rightarrow> real \<Rightarrow> real \<Rightarrow> real \<Rightarrow> real \<Rightarrow> real list" where
  "addUniformLoadFER fer direction w x1 x2 L =
     (if \<bar>x1\<bar> < 1 / 10 ^ 10 \<and> \<bar>x2 - L\<bar> < 1 / 10 ^ 10 then
        (let wL = w * L; wL2 = w * L * L in
         if direction = ''FY'' then
           addTo (addTo (addTo (addTo fer 1 (wL / 2)) 5 (wL2 / 12)) 7 (wL / 2)) 11 (- wL2 / 12)
         else if direction = ''FZ'' then
           addTo (addTo (addTo (addTo fer 2 (wL / 2)) 4 (- wL2 / 12)) 8 (wL / 2)) 10 (wL2 / 12)
         else if direction = ''FX'' then
           addTo (addTo fer 0 (wL / 2)) 6 (wL / 2)
         else fer)
      else
        (let a = x1; b = x2; loadLen = b - a in
         if direction = ''FY'' then
           (let R1 = w * loadLen * (L - (a + b) / 2) / L;
                R2 = w * loadLen - R1;
                M1 = w * loadLen * ((a + b) / 2 - a * (L - (a + b) / 2) / L)
            in addTo (addTo (addTo (addTo fer 1 R1) 7 R2) 5 M1) 11 (- M1))
         else if direction = ''FZ'' then
           (let R1 = w * loadLen * (L - (a + b) / 2) / L;
                R2 = w * loadLen - R1
            in addTo (addTo fer 2 R1) 8 R2)
         else if direction = ''FX'' then
           (let R1 = w * loadLen * (L - (a + b) / 2) / L;
                R2 = w * loadLen - R1
            in addTo (addTo fer 0 R1) 6 R2)
         else fer))"

definition addLinearLoadFER ::
    "real list \<Rightarrow> string \<Rightarrow> real \<Rightarrow> real \<Rightarrow> real \<Rightarrow> real \<Rightarrow> real \<Rightarrow> real list" where
  "addLinearLoadFER fer direction w1 w2 x1 x2 L =
     (let wMin = min w1 w2;
          wDiff = \<bar>w2 - w1\<bar>;
          fer1 = addUniformLoadFER fer direction wMin x1 x2 L;
          wAvg = wDiff / 2
      in addUniformLoadFER fer1 direction wAvg x1 x2 L)"

definition addPointLoadFER ::
    "real list \<Rightarrow> string \<Rightarrow> real \<Rightarrow> real \<Rightarrow> real \<Rightarrow> real list" where
  "addPointLoadFER fer direction P a L =
     (let b = L - a; L2 = L * L; L3 = L2 * L in
      if direction = ''FY'' then
        addTo (addTo (addTo (addTo fer 1 (P * b * b * (3 * a + b) / L3))
                                       5 (P * a * b * b / L2))
                                       7 (P * a * a * (a + 3 * b) / L3))
                                       11 (- P * a * a * b / L2)
      else if direction = ''FZ'' then
        addTo (addTo (addTo (addTo fer 2 (P * b * b * (3 * a + b) / L3))
                                       4 (- P * a * b * b / L2))
                                       8 (P * a * a * (a + 3 * b) / L3))
                                       10 (P * a * a * b / L2)
      else if direction = ''FX'' then
        addTo (addTo fer 0 (P * b / L)) 6 (P * a / L)
      else if direction = ''MZ'' then
        addTo (addTo (addTo (addTo fer 1 (6 * P * a * b / L3))
                                       5 (P * b * (2 * a - b) / L2))
                                       7 (- 6 * P * a * b / L3))
                                       11 (P * a * (2 * b - a) / L2)
      else if direction = ''MY'' then
        addTo (addTo (addTo (addTo fer 2 (- 6 * P * a * b / L3))
                                       4 (P * b * (2 * a - b) / L2))
                                       8 (6 * P * a * b / L3))
                                       10 (P * a * (2 * b - a) / L2)
      else if direction = ''MX'' then
        addTo (addTo fer 3 (P * b / L)) 9 (P * a / L)
      else fer)"

text \<open>\<open>String.prototype.toUpperCase\<close> on the ASCII letters.\<close>

definition upperChar :: "char \<Rightarrow> char" where
  "upperChar c =
     (if c = CHR ''a'' then CHR ''A'' else if c = CHR ''b'' then CHR ''B''
      else if c = CHR ''c'' then CHR ''C'' else if c = CHR ''d'' then CHR ''D''
      else if c = CHR ''e'' then CHR ''E'' else if c = CHR ''f'' then CHR ''F''
      else if c = CHR ''g'' then CHR ''G'' else if c = CHR ''h'' then CHR ''H''
      else if c = CHR ''i'' then CHR ''I'' else if c = CHR ''j'' then CHR ''J''
      else if c = CHR ''k'' then CHR ''K'' else if c = CHR ''l'' then CHR ''L''
      else if c = CHR ''m'' then CHR ''M'' else if c = CHR ''n'' then CHR ''N''
      else if c = CHR ''o'' then CHR ''O'' else if c = CHR ''p'' then CHR ''P''
      else if c = CHR ''q'' then CHR ''Q'' else if c = CHR ''r'' then CHR ''R''
      else if c = CHR ''s'' then CHR ''S'' else if c = CHR ''t'' then CHR ''T''
      else if c = CHR ''u'' then CHR ''U'' else if c = CHR ''v'' then CHR ''V''
      else if c = CHR ''w'' then CHR ''W'' else if c = CHR ''x'' then CHR ''X''
      else if c = CHR ''y'' then CHR ''Y'' else if c = CHR ''z'' then CHR ''Z''
      else c)"

definition toUpperCase :: "string \<Rightarrow> string" where
  "toUpperCase s = map upperChar s"

text \<open>
  The truthiness defaults: \<open>v || d\<close> takes \<open>d\<close> when \<open>v\<close> is undefined or 0,
  \<open>v ?? d\<close> only when \<open>v\<close> is undefined.
\<close>

definition orDefault :: "real option \<Rightarrow> real \<Rightarrow> real" where
  "orDefault v d = (case v of None \<Rightarrow> d | Some r \<Rightarrow> if r = 0 then d else r)"

definition nullishDefault :: "real option \<Rightarrow> real \<Rightarrow> real" where
  "nullishDefault v d = (case v of None \<Rightarrow> d | Some r \<Rightarrow> r)"

text \<open>The body of the loop over the member loads in \<open>fixedEndReactions\<close>.\<close>

definition ferStep :: "Member3DElement \<Rightarrow> MemberLoad \<Rightarrow> real list \<Rightarrow> real list" where
  "ferStep this load fer =
     (let L = el_length this in
      if ml_member load \<noteq> el_id this then fer
      else
        let dir = toUpperCase (ml_direction load) in
        if ml_type load = Distributed then
          (let w1 = orDefault (ml_w1 load) 0;
               w2 = nullishDefault (ml_w2 load) w1;
               x1 = orDefault (ml_x1 load) 0 * L;
               x2 = nullishDefault (ml_x2 load) 1 * L
           in if \<bar>w1 - w2\<bar> < 1 / 10 ^ 10 then addUniformLoadFER fer dir w1 x1 x2 L
              else addLinearLoadFER fer dir w1 w2 x1 x2 L)
        else if ml_type load = Point then
          (let P = orDefault (ml_magnitude load) 0;
               x = orDefault (ml_x load) (1 / 2) * L
           in addPointLoadFER fer dir P x L)
        else fer)"

definition fixedEndReactions :: "Member3DElement \<Rightarrow> MemberLoad list \<Rightarrow> error + real list" where
  "fixedEndReactions this memberLoads =
     (let fer = fold (ferStep this) memberLoads (replicate 12 0) in
      bindE (transformationMatrix this) (\<lambda>T.
        let ferLocal = transpose_m (fromArray [fer]) in
        bindE (multiply (transpose_m T) ferLocal) (\<lambda>ferGlobal.
          Inr (map (\<lambda>i. get ferGlobal i 0) [0..<12]))))"

record ForcePoint =
  fp_x :: real
  fp_forces :: "real list"

definition computeMemberForces ::
    "Member3DElement \<Rightarrow> real list \<Rightarrow> MemberLoad list \<Rightarrow> nat \<Rightarrow> error + ForcePoint list" where
  "computeMemberForces this displacements memberLoads numPoints =
     bindE (transformationMatrix this) (\<lambda>T.
       let kLocal = localStiffnessMatrix this;
           dGlobal = transpose_m (fromArray [displacements]) in
       bindE (multiply T dGlobal) (\<lambda>dLocal.
       bindE (multiply kLocal dLocal) (\<lambda>fLocal.
       bindE (fixedEndReactions this memberLoads) (\<lambda>fer.
         let ferLocal = transpose_m (fromArray [fer]) in
         bindE (multiply T ferLocal) (\<lambda>ferLocalTransformed.
           Inr (map (\<lambda>i.
                  let x = (real i / real numPoints) * el_length this;
                      ratio = x / el_length this
                  in \<lparr>fp_x = x,
                      fp_forces =
                        [get fLocal 0 0 * (1 - ratio) + get fLocal 6 0 * ratio,
                         get fLocal 1 0 * (1 - ratio) + get fLocal 7 0 * ratio,
                         get fLocal 2 0 * (1 - ratio) + get fLocal 8 0 * ratio,
                         get fLocal 3 0 * (1 - ratio) + get fLocal 9 0 * ratio,
                         get fLocal 4 0 * (1 - ratio) + get fLocal 10 0 * ratio,
                         get fLocal 5 0 * (1 - ratio) + get fLocal 11 0 * ratio]\<rparr>)
                [0..<Suc numPoints]))))))"

section \<open>The analyzer (analysis/Analyzer.ts)\<close>

record Analyzer =
  an_model :: StanalModel
  nodeMap :: "string \<rightharpoonup> Node"
  nodeIndexMap :: "string \<rightharpoonup> nat"
  materialMap :: "string \<rightharpoonup> Material"
  sectionMap :: "string \<rightharpoonup> Section"
  supportMap :: "string \<rightharpoonup> Support"
  elements :: "Member3DElement list"
  numDOF :: nat
  freeDOF :: "nat list"
  fixedDOF :: "nat list"

text \<open>The lookup maps: a later entry with the same id replaces an earlier one.\<close>

definition buildMap :: "('a \<Rightarrow> string) \<Rightarrow> 'a list \<Rightarrow> (string \<rightharpoonup> 'a)" where
  "buildMap key xs = fold (\<lambda>x m. m(key x \<mapsto> x)) xs Map.empty"

definition buildIndexMap :: "Node list \<Rightarrow> (string \<rightharpoonup> nat)" where
  "buildIndexMap ns =
     fold (\<lambda>index m. m(node_id (ns ! index) \<mapsto> index)) [0..<length ns] Map.empty"

text \<open>
  The loop creating the elements: a member with an unresolved reference is skipped,
  and the element constructor's throw leaves the loop (and the Analyzer constructor).
\<close>

definition createElement ::
    "(string \<rightharpoonup> Node) \<Rightarrow> (string \<rightharpoonup> Material) \<Rightarrow> (string \<rightharpoonup> Section) \<Rightarrow> Member
      \<Rightarrow> Member3DElement list \<Rightarrow> error + Member3DElement list" where
  "createElement nm mm sm member els =
     (case (nm (mem_iNode member), nm (mem_jNode member),
            mm (mem_material member), sm (mem_section member)) of
        (Some iNode, Some jNode, Some material, Some section) \<Rightarrow>
          bindE (new_Member3DElement member iNode jNode material section)
                (\<lambda>el. Inr (els @ [el]))
      | _ \<Rightarrow> Inr els)"

definition constraintsOf :: "Support option \<Rightarrow> bool list" where
  "constraintsOf support =
     (case support of
        Some s \<Rightarrow> [sup_dx s, sup_dy s, sup_dz s, sup_rx s, sup_ry s, sup_rz s]
      | None \<Rightarrow> [False, False, False, False, False, False])"

text \<open>\<open>classifyDOF\<close> returns the pair (freeDOF, fixedDOF) it stores in the analyzer.\<close>

definition classifyDOF :: "Node list \<Rightarrow> (string \<rightharpoonup> Support) \<Rightarrow> nat list \<times> nat list" where
  "classifyDOF ns sm =
     fold (\<lambda>i st.
             let node = ns ! i;
                 support = sm (node_id node);
                 baseDOF = i * 6;
                 constraints = constraintsOf support
             in fold (\<lambda>j (free, fixed).
                        if constraints ! j then (free, fixed @ [baseDOF + j])
                        else (free @ [baseDOF + j], fixed))
                     [0..<6] st)
          [0..<length ns] ([], [])"

text \<open>The constructor together with \<open>initialize\<close>.\<close>

definition new_Analyzer :: "StanalModel \<Rightarrow> error + Analyzer" where
  "new_Analyzer model =
     (let nm = buildMap node_id (nodes model);
          im = buildIndexMap (nodes model);
          mm = buildMap mat_id (materials model);
          sm = buildMap sec_id (sections model);
          supm = buildMap sup_node (supports model)
      in bindE (foldE (createElement nm mm sm) (members model) []) (\<lambda>els.
           let (free, fixed) = classifyDOF (nodes model) supm
           in Inr \<lparr>an_model = model, nodeMap = nm, nodeIndexMap = im, materialMap = mm,
                   sectionMap = sm, supportMap = supm, elements = els,
                   numDOF = length (nodes model) * 6, freeDOF = free, fixedDOF = fixed\<rparr>))"

text \<open>
  The element-to-global DOF mapping. \<open>nodeIndexMap.get(id)!\<close> on a missing id would give
  \<open>undefined\<close>, and the matrix access through it a TypeError.
\<close>

definition dofMapOf :: "Analyzer \<Rightarrow> Member3DElement \<Rightarrow> error + nat list" where
  "dofMapOf this element =
     (case (nodeIndexMap this (node_id (el_iNode element)),
            nodeIndexMap this (node_id (el_jNode element))) of
        (Some iIndex, Some jIndex) \<Rightarrow>
          Inr [iIndex * 6, iIndex * 6 + 1, iIndex * 6 + 2,
               iIndex * 6 + 3, iIndex * 6 + 4, iIndex * 6 + 5,
               jIndex * 6, jIndex * 6 + 1, jIndex * 6 + 2,
               jIndex * 6 + 3, jIndex * 6 + 4, jIndex * 6 + 5]
      | _ \<Rightarrow> Inl TypeError)"

definition scatterAdd :: "Matrix \<Rightarrow> nat list \<Rightarrow> Matrix \<Rightarrow> Matrix" where
  "scatterAdd kGlobal dofMap K =
     fold (\<lambda>i K. fold (\<lambda>j K. add_m K (dofMap ! i) (dofMap ! j) (get kGlobal i j)) [0..<12] K)
          [0..<12] K"

definition assembleElement :: "Analyzer \<Rightarrow> Member3DElement \<Rightarrow> Matrix \<Rightarrow> error + Matrix" where
  "assembleElement this element K =
     bindE (globalStiffnessMatrix element) (\<lambda>kGlobal.
     bindE (dofMapOf this element) (\<lambda>dofMap.
       Inr (scatterAdd kGlobal dofMap K)))"

definition assembleGlobalStiffnessMatrix :: "Analyzer \<Rightarrow> error + Matrix" where
  "assembleGlobalStiffnessMatrix this =
     foldE (assembleElement this) (elements this) (zeros (numDOF this) (numDOF this))"

definition getDOFOffset :: "string \<Rightarrow> int" where
  "getDOFOffset direction =
     (if direction = ''FX'' then 0
      else if direction = ''FY'' then 1
      else if direction = ''FZ'' then 2
      else if direction = ''MX'' then 3
      else if direction = ''MY'' then 4
      else if direction = ''MZ'' then 5
      else - 1)"

definition addNodeLoad :: "Analyzer \<Rightarrow> NodeLoad \<Rightarrow> real list \<Rightarrow> real list" where
  "addNodeLoad this load P =
     (case nodeIndexMap this (nl_node load) of
        None \<Rightarrow> P
      | Some nodeIndex \<Rightarrow>
          let dir = toUpperCase (nl_direction load);
              dofOffset = getDOFOffset dir
          in if dofOffset \<ge> 0
             then addTo P (nodeIndex * 6 + nat dofOffset) (nl_magnitude load)
             else P)"

definition subtractFER :: "nat \<Rightarrow> nat \<Rightarrow> real list \<Rightarrow> real list \<Rightarrow> real list" where
  "subtractFER iIndex jIndex fer P =
     fold (\<lambda>i P. addTo (addTo P (iIndex * 6 + i) (- (fer ! i))) (jIndex * 6 + i) (- (fer ! (i + 6))))
          [0..<6] P"

definition addElementFER ::
    "Analyzer \<Rightarrow> MemberLoad list \<Rightarrow> Member3DElement \<Rightarrow> real list \<Rightarrow> error + real list" where
  "addElementFER this memberLoads element P =
     bindE (fixedEndReactions element memberLoads) (\<lambda>fer.
       case (nodeIndexMap this (node_id (el_iNode element)),
             nodeIndexMap this (node_id (el_jNode element))) of
         (Some iIndex, Some jIndex) \<Rightarrow> Inr (subtractFER iIndex jIndex fer P)
       | _ \<Rightarrow> Inl TypeError)"

definition assembleLoadVector :: "Analyzer \<Rightarrow> LoadCase \<Rightarrow> error + real list" where
  "assembleLoadVector this loadCase =
     (let P = fold (addNodeLoad this) (lc_nodeLoads loadCase) (replicate (numDOF this) 0)
      in foldE (addElementFER this (lc_memberLoads loadCase)) (elements this) P)"

text \<open>The combined load vector: the loop over the entries of \<open>combo.factors\<close>.\<close>

definition addCase :: "Analyzer \<Rightarrow> string \<times> real \<Rightarrow> real list \<Rightarrow> error + real list" where
  "addCase this = (\<lambda>(caseName, factor) P.
     case find (\<lambda>lc. lc_name lc = caseName) (loadCases (an_model this)) of
       None \<Rightarrow> Inr P
     | Some loadCase \<Rightarrow>
         bindE (assembleLoadVector this loadCase) (\<lambda>caseP.
           Inr (fold (\<lambda>i P. P[i := P ! i + factor * caseP ! i]) [0..<numDOF this] P)))"

definition combinedLoadVector :: "Analyzer \<Rightarrow> LoadCombination \<Rightarrow> error + real list" where
  "combinedLoadVector this combo =
     foldE (addCase this) (combo_factors combo) (replicate (numDOF this) 0)"

definition emptySummary :: Summary where
  "emptySummary =
     \<lparr>maxDisplacement = \<lparr>ne_nodeId = [], ne_value = 0, ne_direction = []\<rparr>,
      maxReaction = \<lparr>ne_nodeId = [], ne_value = 0, ne_direction = []\<rparr>,
      maxMoment = \<lparr>me_memberId = [], me_value = 0, me_location = 0\<rparr>,
      maxShear = \<lparr>me_memberId = [], me_value = 0, me_location = 0\<rparr>\<rparr>"

definition extractNodeResults :: "Analyzer \<Rightarrow> real list \<Rightarrow> real list \<Rightarrow> NodeResult list" where
  "extractNodeResults this D reactions =
     map (\<lambda>index.
            let node = nodes (an_model this) ! index; baseDOF = index * 6 in
            \<lparr>nr_nodeId = node_id node,
             nr_displacement =
               \<lparr>dof_dx = D ! baseDOF, dof_dy = D ! (baseDOF + 1), dof_dz = D ! (baseDOF + 2),
                dof_rx = D ! (baseDOF + 3), dof_ry = D ! (baseDOF + 4), dof_rz = D ! (baseDOF + 5)\<rparr>,
             nr_reaction =
               \<lparr>dof_dx = reactions ! baseDOF, dof_dy = reactions ! (baseDOF + 1),
                dof_dz = reactions ! (baseDOF + 2), dof_rx = reactions ! (baseDOF + 3),
                dof_ry = reactions ! (baseDOF + 4), dof_rz = reactions ! (baseDOF + 5)\<rparr>\<rparr>)
         [0..<length (nodes (an_model this))]"

definition findMax :: "MemberForces list \<Rightarrow> (MemberForces \<Rightarrow> real) \<Rightarrow> MaxForce" where
  "findMax forces key =
     (let (maxVal, maxLoc) =
            fold (\<lambda>f (maxVal, maxLoc).
                    let val = \<bar>key f\<bar> in
                    if val > \<bar>maxVal\<bar> then (key f, mf_x f) else (maxVal, maxLoc))
                 forces (0, 0)
      in \<lparr>mx_value = maxVal, mx_location = maxLoc\<rparr>)"

text \<open>The member loads of the combination, each spread with its factored intensities.\<close>

definition combinedLoadsOf ::
    "Analyzer \<Rightarrow> LoadCombination \<Rightarrow> Member3DElement \<Rightarrow> MemberLoad list" where
  "combinedLoadsOf this combo element =
     fold (\<lambda>(caseName, factor) combinedLoads.
             case find (\<lambda>lc. lc_name lc = caseName) (loadCases (an_model this)) of
               None \<Rightarrow> combinedLoads
             | Some loadCase \<Rightarrow>
                 fold (\<lambda>ml combinedLoads.
                         if ml_member ml = el_id element
                         then combinedLoads @
                                [ml\<lparr>ml_magnitude := Some (orDefault (ml_magnitude ml) 0 * factor),
                                    ml_w1 := Some (orDefault (ml_w1 ml) 0 * factor),
                                    ml_w2 := Some (orDefault (ml_w2 ml) 0 * factor)\<rparr>]
                         else combinedLoads)
                      (lc_memberLoads loadCase) combinedLoads)
          (combo_factors combo) []"

definition memberResultOf ::
    "Analyzer \<Rightarrow> real list \<Rightarrow> LoadCombination \<Rightarrow> Member3DElement \<Rightarrow> error + MemberResult" where
  "memberResultOf this D combo element =
     (case (nodeIndexMap this (node_id (el_iNode element)),
            nodeIndexMap this (node_id (el_jNode element))) of
        (Some iIndex, Some jIndex) \<Rightarrow>
          (let elementD =
                 [D ! (iIndex * 6), D ! (iIndex * 6 + 1), D ! (iIndex * 6 + 2),
                  D ! (iIndex * 6 + 3), D ! (iIndex * 6 + 4), D ! (iIndex * 6 + 5),
                  D ! (jIndex * 6), D ! (jIndex * 6 + 1), D ! (jIndex * 6 + 2),
                  D ! (jIndex * 6 + 3), D ! (jIndex * 6 + 4), D ! (jIndex * 6 + 5)];
               combinedLoads = combinedLoadsOf this combo element
           in bindE (computeMemberForces element elementD combinedLoads 11) (\<lambda>forcePoints.
                let forces =
                      map (\<lambda>fp. \<lparr>mf_x = fp_x fp,
                                 mf_axial = fp_forces fp ! 0,
                                 mf_shearY = fp_forces fp ! 1,
                                 mf_shearZ = fp_forces fp ! 2,
                                 mf_torsion = fp_forces fp ! 3,
                                 mf_momentY = fp_forces fp ! 4,
                                 mf_momentZ = fp_forces fp ! 5\<rparr>) forcePoints;
                    maxForces =
                      \<lparr>max_axial = findMax forces mf_axial,
                       max_shearY = findMax forces mf_shearY,
                       max_shearZ = findMax forces mf_shearZ,
                       max_momentY = findMax forces mf_momentY,
                       max_momentZ = findMax forces mf_momentZ\<rparr>
                in Inr \<lparr>mr_memberId = el_id element, mr_forces = forces,
                        mr_maxForces = maxForces\<rparr>))
      | _ \<Rightarrow> Inl TypeError)"

definition extractMemberResults ::
    "Analyzer \<Rightarrow> real list \<Rightarrow> LoadCombination \<Rightarrow> error + MemberResult list" where
  "extractMemberResults this D combo =
     foldE (\<lambda>element acc. bindE (memberResultOf this D combo element) (\<lambda>r. Inr (acc @ [r])))
           (elements this) []"

definition maxOverNodes :: "(NodeResult \<Rightarrow> NodeDOF) \<Rightarrow> NodeResult list \<Rightarrow> NodeExtremum" where
  "maxOverNodes part ns =
     fold (\<lambda>node m.
             fold (\<lambda>(dir, sel) m.
                     if \<bar>sel (part node)\<bar> > \<bar>ne_value m\<bar>
                     then \<lparr>ne_nodeId = nr_nodeId node, ne_value = sel (part node),
                           ne_direction = dir\<rparr>
                     else m)
                  [(''dx'', dof_dx), (''dy'', dof_dy), (''dz'', dof_dz)] m)
          ns \<lparr>ne_nodeId = [], ne_value = 0, ne_direction = []\<rparr>"

definition maxOverMembers :: "(MaxForces \<Rightarrow> MaxForce) \<Rightarrow> MemberResult list \<Rightarrow> MemberExtremum" where
  "maxOverMembers part ms =
     fold (\<lambda>member m.
             if \<bar>mx_value (part (mr_maxForces member))\<bar> > \<bar>me_value m\<bar>
             then \<lparr>me_memberId = mr_memberId member,
                   me_value = mx_value (part (mr_maxForces member)),
                   me_location = mx_location (part (mr_maxForces member))\<rparr>
             else m)
          ms \<lparr>me_memberId = [], me_value = 0, me_location = 0\<rparr>"

definition computeSummary :: "NodeResult list \<Rightarrow> MemberResult list \<Rightarrow> Summary" where
  "computeSummary ns ms =
     \<lparr>maxDisplacement = maxOverNodes nr_displacement ns,
      maxReaction = maxOverNodes nr_reaction ns,
      maxMoment = maxOverMembers max_momentZ ms,
      maxShear = maxOverMembers max_shearY ms\<rparr>"

definition failedResult :: "string \<Rightarrow> error \<Rightarrow> AnalysisResult" where
  "failedResult combinationName e =
     \<lparr>res_success = False, res_error = Some e, res_loadCase = combinationName,
      res_nodes = [], res_members = [], res_summary = emptySummary\<rparr>"

text \<open>The intermediate vectors of one analysis, kept for the statements about them.\<close>

record Solution =
  sol_K :: Matrix
  sol_P :: "real list"
  sol_D :: "real list"
  sol_reactions :: "real list"

definition solveSystem :: "Analyzer \<Rightarrow> LoadCombination \<Rightarrow> error + Solution" where
  "solveSystem this combo =
     bindE (assembleGlobalStiffnessMatrix this) (\<lambda>K.
     bindE (combinedLoadVector this combo) (\<lambda>P.
       let K11 = subMatrix K (freeDOF this) (freeDOF this);
           P1 = extractVector P (freeDOF this) in
       bindE (solve K11 P1) (\<lambda>D1.
         let D = setVector (replicate (numDOF this) 0) (freeDOF this) D1 in
         bindE (multiplyVector K D) (\<lambda>KD.
           let reactions = fold (\<lambda>i r. r[i := r ! i - P ! i]) [0..<numDOF this] KD
           in Inr \<lparr>sol_K = K, sol_P = P, sol_D = D, sol_reactions = reactions\<rparr>))))"

text \<open>The body of the \<open>try\<close> block after the combination has been found.\<close>

definition analyzeCombination ::
    "Analyzer \<Rightarrow> string \<Rightarrow> LoadCombination \<Rightarrow> error + AnalysisResult" where
  "analyzeCombination this combinationName combo =
     bindE (solveSystem this combo) (\<lambda>sol.
       let nodeResults = extractNodeResults this (sol_D sol) (sol_reactions sol) in
       bindE (extractMemberResults this (sol_D sol) combo) (\<lambda>memberResults.
         Inr \<lparr>res_success = True, res_error = None, res_loadCase = combinationName,
              res_nodes = nodeResults, res_members = memberResults,
              res_summary = computeSummary nodeResults memberResults\<rparr>))"

text \<open>The value \<open>analyze\<close> returns: every error of the body is caught and becomes a failed result.\<close>

definition analyzeResult :: "Analyzer \<Rightarrow> string \<Rightarrow> AnalysisResult" where
  "analyzeResult this combinationName =
     (case find (\<lambda>c. combo_name c = combinationName) (loadCombinations (an_model this)) of
        None \<Rightarrow> failedResult combinationName (CombinationNotFound combinationName)
      | Some combo \<Rightarrow>
          (case analyzeCombination this combinationName combo of
             Inl e \<Rightarrow> failedResult combinationName e
           | Inr r \<Rightarrow> r))"

text \<open>
  \<open>analyze\<close> as a method call: the result and the analyzer after the call. Neither the
  method nor any private method it calls assigns to a field of \<open>this\<close>; the matrices
  and vectors it updates in place are local to the call.
\<close>

definition analyze :: "Analyzer \<Rightarrow> string \<Rightarrow> AnalysisResult \<times> Analyzer" where
  "analyze this combinationName = (analyzeResult this combinationName, this)"

text \<open>
  The entry points as a caller uses them (\<open>runAnalysis\<close> in extension.ts):
  \<open>new Analyzer(model)\<close>, then \<open>analyzer.analyze(name)\<close>. \<open>Inl\<close> is an exception that
  reaches the caller.
\<close>

definition analyzeModel :: "StanalModel \<Rightarrow> string \<Rightarrow> error + AnalysisResult" where
  "analyzeModel model combinationName =
     bindE (new_Analyzer model) (\<lambda>analyzer. Inr (fst (analyze analyzer combinationName)))"


section \<open>The analysis on a store\<close>

text \<open>
  The functions above pass values. The code updates matrices and number arrays in
  place, and the analyzer holds references to two arrays, \<open>freeDOF\<close> and \<open>fixedDOF\<close>.
  This section runs \<open>analyze\<close> on a store: an object is a cell of the store, a reference
  is the index of its cell, \<open>new\<close> appends a cell, and an update in place overwrites the
  cell the reference points to. The cells are the number arrays, the \<open>Matrix\<close> objects
  (\<open>data\<close> is private and no row of it leaves the class, so a matrix is one cell) and the
  \<open>Analyzer\<close> object itself with its fields. The objects of the model and the elements,
  whose fields and entries no statement of the analysis assigns to, stay values, and
  so do the result objects, which are built from the numbers read from the store.

  Every statement of \<open>Analyzer.analyze\<close>, \<open>assembleGlobalStiffnessMatrix\<close>,
  \<open>assembleLoadVector\<close>, \<open>Matrix.solve\<close>, \<open>Matrix.setVector\<close>, \<open>Matrix.get\<close>, \<open>set\<close> and \<open>add\<close>
  that reads or writes an array or a matrix is a read or a write of the store. A
  method that creates objects, fills them and returns one of them, and writes to no
  object it did not create (\<open>zeros\<close>, \<open>clone\<close>, \<open>subMatrix\<close>, \<open>extractVector\<close>,
  \<open>multiplyVector\<close>, the element's \<open>globalStiffnessMatrix\<close> and \<open>fixedEndReactions\<close>) reads
  its arguments from the store and stores the object it returns, as the functions on
  values compute it, in a new cell. An access through a reference that points to no
  cell, or to a cell of another kind, is the TypeError of an access to \<open>undefined\<close>.
\<close>

record AnalyzerObject =
  obj_model :: StanalModel
  obj_nodeMap :: "string \<rightharpoonup> Node"
  obj_nodeIndexMap :: "string \<rightharpoonup> nat"
  obj_materialMap :: "string \<rightharpoonup> Material"
  obj_sectionMap :: "string \<rightharpoonup> Section"
  obj_supportMap :: "string \<rightharpoonup> Support"
  obj_elements :: "Member3DElement list"
  obj_numDOF :: nat
  obj_freeDOF :: nat
  obj_fixedDOF :: nat

datatype cell = Numbers "real list" | Indices "nat list" | Grid Matrix | Instance AnalyzerObject

type_synonym store = "cell list"

type_synonym 'a effect = "store \<Rightarrow> (error + 'a) \<times> store"

definition returnS :: "'a \<Rightarrow> 'a effect" where
  "returnS v = (\<lambda>s. (Inr v, s))"

definition throwS :: "error \<Rightarrow> 'a effect" where
  "throwS e = (\<lambda>s. (Inl e, s))"

definition liftE :: "error + 'a \<Rightarrow> 'a effect" where
  "liftE r = (\<lambda>s. (r, s))"

definition bindS :: "'a effect \<Rightarrow> ('a \<Rightarrow> 'b effect) \<Rightarrow> 'b effect" where
  "bindS m f = (\<lambda>s. case m s of (Inl e, s') \<Rightarrow> (Inl e, s') | (Inr v, s') \<Rightarrow> f v s')"

text \<open>A \<open>for\<close> loop whose body may update the store and may throw.\<close>

fun forS :: "'a list \<Rightarrow> ('a \<Rightarrow> unit effect) \<Rightarrow> unit effect" where
  "forS [] body = returnS ()"
| "forS (x # xs) body = bindS (body x) (\<lambda>_. forS xs body)"

definition newCell :: "cell \<Rightarrow> nat effect" where
  "newCell c = (\<lambda>s. (Inr (length s), s @ [c]))"

definition readCell :: "nat \<Rightarrow> cell effect" where
  "readCell a = (\<lambda>s. if a < length s then (Inr (s ! a), s) else (Inl TypeError, s))"

definition writeCell :: "nat \<Rightarrow> cell \<Rightarrow> unit effect" where
  "writeCell a c = (\<lambda>s. if a < length s then (Inr (), s[a := c]) else (Inl TypeError, s))"

definition readNumbers :: "nat \<Rightarrow> real list effect" where
  "readNumbers a = bindS (readCell a) (\<lambda>c. case c of Numbers v \<Rightarrow> returnS v | _ \<Rightarrow> throwS TypeError)"

definition readIndices :: "nat \<Rightarrow> nat list effect" where
  "readIndices a = bindS (readCell a) (\<lambda>c. case c of Indices v \<Rightarrow> returnS v | _ \<Rightarrow> throwS TypeError)"

definition readGrid :: "nat \<Rightarrow> Matrix effect" where
  "readGrid a = bindS (readCell a) (\<lambda>c. case c of Grid m \<Rightarrow> returnS m | _ \<Rightarrow> throwS TypeError)"

definition readInstance :: "nat \<Rightarrow> AnalyzerObject effect" where
  "readInstance a =
     bindS (readCell a) (\<lambda>c. case c of Instance obj \<Rightarrow> returnS obj | _ \<Rightarrow> throwS TypeError)"

text \<open>\<open>vec[i]\<close>, \<open>vec[i] = v\<close> and \<open>vec[i] += v\<close> on a number array.\<close>

definition numberAt :: "nat \<Rightarrow> nat \<Rightarrow> real effect" where
  "numberAt vec i = bindS (readNumbers vec) (\<lambda>v. returnS (v ! i))"

definition setNumberAt :: "nat \<Rightarrow> nat \<Rightarrow> real \<Rightarrow> unit effect" where
  "setNumberAt vec i x = bindS (readNumbers vec) (\<lambda>v. writeCell vec (Numbers (v[i := x])))"

definition indexAt :: "nat \<Rightarrow> nat \<Rightarrow> nat effect" where
  "indexAt vec i = bindS (readIndices vec) (\<lambda>v. returnS (v ! i))"

definition setIndexAt :: "nat \<Rightarrow> nat \<Rightarrow> nat \<Rightarrow> unit effect" where
  "setIndexAt vec i x = bindS (readIndices vec) (\<lambda>v. writeCell vec (Indices (v[i := x])))"

definition addToS :: "nat \<Rightarrow> nat \<Rightarrow> real \<Rightarrow> unit effect" where
  "addToS vec i x = bindS (numberAt vec i) (\<lambda>old. setNumberAt vec i (old + x))"

subsection \<open>Matrix on the store\<close>

definition zerosS :: "nat \<Rightarrow> nat \<Rightarrow> nat effect" where
  "zerosS r c = newCell (Grid (zeros r c))"

definition getS :: "nat \<Rightarrow> nat \<Rightarrow> nat \<Rightarrow> real effect" where
  "getS this row col = bindS (readGrid this) (\<lambda>m. returnS (get m row col))"

definition setS :: "nat \<Rightarrow> nat \<Rightarrow> nat \<Rightarrow> real \<Rightarrow> unit effect" where
  "setS this row col v = bindS (readGrid this) (\<lambda>m. writeCell this (Grid (set_m m row col v)))"

definition addS :: "nat \<Rightarrow> nat \<Rightarrow> nat \<Rightarrow> real \<Rightarrow> unit effect" where
  "addS this row col v = bindS (readGrid this) (\<lambda>m. writeCell this (Grid (add_m m row col v)))"

definition cloneS :: "nat \<Rightarrow> nat effect" where
  "cloneS this = bindS (readGrid this) (\<lambda>m. newCell (Grid (clone m)))"

definition subMatrixS :: "nat \<Rightarrow> nat \<Rightarrow> nat \<Rightarrow> nat effect" where
  "subMatrixS this rowIndices colIndices =
     bindS (readGrid this) (\<lambda>m.
     bindS (readIndices rowIndices) (\<lambda>ri.
     bindS (readIndices colIndices) (\<lambda>ci.
       newCell (Grid (subMatrix m ri ci)))))"

definition extractVectorS :: "nat \<Rightarrow> nat \<Rightarrow> nat effect" where
  "extractVectorS vec indices =
     bindS (readNumbers vec) (\<lambda>v.
     bindS (readIndices indices) (\<lambda>idx.
       newCell (Numbers (extractVector v idx))))"

definition multiplyVectorS :: "nat \<Rightarrow> nat \<Rightarrow> nat effect" where
  "multiplyVectorS this vec =
     bindS (readGrid this) (\<lambda>m.
     bindS (readNumbers vec) (\<lambda>v.
     bindS (liftE (multiplyVector m v)) (\<lambda>result.
       newCell (Numbers result))))"

text \<open>\<open>setVector\<close> writes into the array it is given.\<close>

definition setVectorS :: "nat \<Rightarrow> nat \<Rightarrow> nat \<Rightarrow> unit effect" where
  "setVectorS vec indices vals =
     bindS (readIndices indices) (\<lambda>idx.
       forS [0..<length idx] (\<lambda>i.
         bindS (readIndices indices) (\<lambda>idx.
         bindS (numberAt vals i) (\<lambda>v.
           setNumberAt vec (idx ! i) v))))"

text \<open>
  \<open>solve\<close>: the elimination works in place on the clone \<open>A\<close>, on the copy \<open>x\<close> of \<open>b\<close> and
  on the permutation array \<open>pivot\<close>.
\<close>

definition swapRowsS :: "nat \<Rightarrow> nat \<Rightarrow> nat \<Rightarrow> nat \<Rightarrow> unit effect" where
  "swapRowsS n A k maxRow =
     forS [0..<n] (\<lambda>j.
       bindS (getS A k j) (\<lambda>temp.
       bindS (getS A maxRow j) (\<lambda>v.
       bindS (setS A k j v) (\<lambda>_.
         setS A maxRow j temp))))"

definition swapEntriesS :: "nat \<Rightarrow> nat \<Rightarrow> nat \<Rightarrow> unit effect" where
  "swapEntriesS x k maxRow =
     bindS (numberAt x k) (\<lambda>temp.
     bindS (numberAt x maxRow) (\<lambda>v.
     bindS (setNumberAt x k v) (\<lambda>_.
       setNumberAt x maxRow temp)))"

definition swapPivotS :: "nat \<Rightarrow> nat \<Rightarrow> nat \<Rightarrow> unit effect" where
  "swapPivotS pivot k maxRow =
     bindS (indexAt pivot k) (\<lambda>tempPivot.
     bindS (indexAt pivot maxRow) (\<lambda>v.
     bindS (setIndexAt pivot k v) (\<lambda>_.
       setIndexAt pivot maxRow tempPivot)))"

definition eliminateRowS :: "nat \<Rightarrow> nat \<Rightarrow> nat \<Rightarrow> nat \<Rightarrow> real \<Rightarrow> nat \<Rightarrow> unit effect" where
  "eliminateRowS n A x k akk i =
     bindS (getS A i k) (\<lambda>aik.
       let factor = aik / akk in
       bindS (setS A i k factor) (\<lambda>_.
       bindS (forS [Suc k..<n] (\<lambda>j.
                bindS (getS A i j) (\<lambda>aij.
                bindS (getS A k j) (\<lambda>akj.
                  setS A i j (aij - factor * akj))))) (\<lambda>_.
       bindS (numberAt x i) (\<lambda>xi.
       bindS (numberAt x k) (\<lambda>xk.
         setNumberAt x i (xi - factor * xk))))))"

definition eliminationStepS :: "nat \<Rightarrow> nat \<Rightarrow> nat \<Rightarrow> nat \<Rightarrow> nat \<Rightarrow> unit effect" where
  "eliminationStepS n A x pivot k =
     bindS (readGrid A) (\<lambda>m.
       let maxRow = snd (findPivot m n k) in
       bindS (if maxRow \<noteq> k
              then bindS (swapRowsS n A k maxRow) (\<lambda>_.
                   bindS (swapEntriesS x k maxRow) (\<lambda>_.
                     swapPivotS pivot k maxRow))
              else returnS ()) (\<lambda>_.
       bindS (getS A k k) (\<lambda>akk.
         if \<bar>akk\<bar> < 1 / 10 ^ 12 then throwS Singular
         else forS [Suc k..<n] (eliminateRowS n A x k akk))))"

definition backSubstituteRowS :: "nat \<Rightarrow> nat \<Rightarrow> nat \<Rightarrow> nat \<Rightarrow> unit effect" where
  "backSubstituteRowS n A x i =
     bindS (forS [Suc i..<n] (\<lambda>j.
              bindS (numberAt x i) (\<lambda>xi.
              bindS (getS A i j) (\<lambda>aij.
              bindS (numberAt x j) (\<lambda>xj.
                setNumberAt x i (xi - aij * xj)))))) (\<lambda>_.
     bindS (numberAt x i) (\<lambda>xi.
     bindS (getS A i i) (\<lambda>aii.
       setNumberAt x i (xi / aii))))"

definition solveS :: "nat \<Rightarrow> nat \<Rightarrow> nat effect" where
  "solveS this b =
     bindS (readGrid this) (\<lambda>m.
     bindS (readNumbers b) (\<lambda>bv.
       if rows m \<noteq> cols m then throwS NotSquare
       else if rows m \<noteq> length bv then throwS RhsLength
       else
         let n = rows m in
         bindS (cloneS this) (\<lambda>A.
         bindS (newCell (Numbers bv)) (\<lambda>x.
         bindS (newCell (Indices [0..<n])) (\<lambda>pivot.
         bindS (forS [0..<n - 1] (eliminationStepS n A x pivot)) (\<lambda>_.
           if n = 0 then throwS TypeError
           else
             bindS (getS A (n - 1) (n - 1)) (\<lambda>last.
               if \<bar>last\<bar> < 1 / 10 ^ 12 then throwS Singular
               else
                 bindS (forS (rev [0..<n]) (backSubstituteRowS n A x)) (\<lambda>_.
                   returnS x))))))))"

subsection \<open>The analyzer on the store\<close>

text \<open>
  The constructor: the object and its two arrays are new cells. \<open>fieldsOf\<close> reads the
  fields of an analyzer object together with the contents of its two arrays.
\<close>

definition new_AnalyzerS :: "StanalModel \<Rightarrow> nat effect" where
  "new_AnalyzerS model =
     bindS (liftE (new_Analyzer model)) (\<lambda>an.
     bindS (newCell (Indices (freeDOF an))) (\<lambda>free.
     bindS (newCell (Indices (fixedDOF an))) (\<lambda>fixed.
       newCell (Instance
         \<lparr>obj_model = an_model an, obj_nodeMap = nodeMap an,
          obj_nodeIndexMap = nodeIndexMap an, obj_materialMap = materialMap an,
          obj_sectionMap = sectionMap an, obj_supportMap = supportMap an,
          obj_elements = elements an, obj_numDOF = numDOF an,
          obj_freeDOF = free, obj_fixedDOF = fixed\<rparr>))))"

definition fieldsOf :: "nat \<Rightarrow> Analyzer effect" where
  "fieldsOf this =
     bindS (readInstance this) (\<lambda>obj.
     bindS (readIndices (obj_freeDOF obj)) (\<lambda>free.
     bindS (readIndices (obj_fixedDOF obj)) (\<lambda>fixed.
       returnS
         \<lparr>an_model = obj_model obj, nodeMap = obj_nodeMap obj,
          nodeIndexMap = obj_nodeIndexMap obj, materialMap = obj_materialMap obj,
          sectionMap = obj_sectionMap obj, supportMap = obj_supportMap obj,
          elements = obj_elements obj, numDOF = obj_numDOF obj,
          freeDOF = free, fixedDOF = fixed\<rparr>)))"

definition globalStiffnessMatrixS :: "Member3DElement \<Rightarrow> nat effect" where
  "globalStiffnessMatrixS element =
     bindS (liftE (globalStiffnessMatrix element)) (\<lambda>kGlobal. newCell (Grid kGlobal))"

definition fixedEndReactionsS :: "Member3DElement \<Rightarrow> MemberLoad list \<Rightarrow> nat effect" where
  "fixedEndReactionsS element memberLoads =
     bindS (liftE (fixedEndReactions element memberLoads)) (\<lambda>fer. newCell (Numbers fer))"

definition assembleElementS :: "nat \<Rightarrow> nat \<Rightarrow> Member3DElement \<Rightarrow> unit effect" where
  "assembleElementS this K element =
     bindS (globalStiffnessMatrixS element) (\<lambda>kGlobal.
     bindS (fieldsOf this) (\<lambda>fields.
     bindS (liftE (dofMapOf fields element)) (\<lambda>dofMap.
       forS [0..<12] (\<lambda>i.
         forS [0..<12] (\<lambda>j.
           bindS (getS kGlobal i j) (\<lambda>v.
             addS K (dofMap ! i) (dofMap ! j) v))))))"

definition assembleGlobalStiffnessMatrixS :: "nat \<Rightarrow> nat effect" where
  "assembleGlobalStiffnessMatrixS this =
     bindS (fieldsOf this) (\<lambda>fields.
     bindS (zerosS (numDOF fields) (numDOF fields)) (\<lambda>K.
     bindS (forS (elements fields) (assembleElementS this K)) (\<lambda>_.
       returnS K)))"

definition addNodeLoadS :: "nat \<Rightarrow> nat \<Rightarrow> NodeLoad \<Rightarrow> unit effect" where
  "addNodeLoadS this P load =
     bindS (fieldsOf this) (\<lambda>fields.
       case nodeIndexMap fields (nl_node load) of
         None \<Rightarrow> returnS ()
       | Some nodeIndex \<Rightarrow>
           let dir = toUpperCase (nl_direction load);
               dofOffset = getDOFOffset dir
           in if dofOffset \<ge> 0
              then addToS P (nodeIndex * 6 + nat dofOffset) (nl_magnitude load)
              else returnS ())"

definition addElementFERS :: "nat \<Rightarrow> MemberLoad list \<Rightarrow> nat \<Rightarrow> Member3DElement \<Rightarrow> unit effect" where
  "addElementFERS this memberLoads P element =
     bindS (fixedEndReactionsS element memberLoads) (\<lambda>fer.
     bindS (fieldsOf this) (\<lambda>fields.
       case (nodeIndexMap fields (node_id (el_iNode element)),
             nodeIndexMap fields (node_id (el_jNode element))) of
         (Some iIndex, Some jIndex) \<Rightarrow>
           forS [0..<6] (\<lambda>i.
             bindS (numberAt fer i) (\<lambda>f1.
             bindS (addToS P (iIndex * 6 + i) (- f1)) (\<lambda>_.
             bindS (numberAt fer (i + 6)) (\<lambda>f2.
               addToS P (jIndex * 6 + i) (- f2)))))
       | _ \<Rightarrow> throwS TypeError))"

definition assembleLoadVectorS :: "nat \<Rightarrow> LoadCase \<Rightarrow> nat effect" where
  "assembleLoadVectorS this loadCase =
     bindS (fieldsOf this) (\<lambda>fields.
     bindS (newCell (Numbers (replicate (numDOF fields) 0))) (\<lambda>P.
     bindS (forS (lc_nodeLoads loadCase) (addNodeLoadS this P)) (\<lambda>_.
     bindS (forS (elements fields) (addElementFERS this (lc_memberLoads loadCase) P)) (\<lambda>_.
       returnS P))))"

definition addCaseS :: "nat \<Rightarrow> nat \<Rightarrow> string \<times> real \<Rightarrow> unit effect" where
  "addCaseS this P = (\<lambda>(caseName, factor).
     bindS (fieldsOf this) (\<lambda>fields.
       case find (\<lambda>lc. lc_name lc = caseName) (loadCases (an_model fields)) of
         None \<Rightarrow> returnS ()
       | Some loadCase \<Rightarrow>
           bindS (assembleLoadVectorS this loadCase) (\<lambda>caseP.
             forS [0..<numDOF fields] (\<lambda>i.
               bindS (numberAt caseP i) (\<lambda>c.
                 addToS P i (factor * c))))))"

text \<open>
  The body of the \<open>try\<close> block of \<open>analyze\<close> after the combination has been found, in
  the three parts of the functions on values: the combined load vector, the solution
  of the system (it returns the references to \<open>D\<close> and \<open>reactions\<close>), and the results.
\<close>

definition combinedLoadVectorS :: "nat \<Rightarrow> LoadCombination \<Rightarrow> nat effect" where
  "combinedLoadVectorS this combo =
     bindS (fieldsOf this) (\<lambda>fields.
     bindS (newCell (Numbers (replicate (numDOF fields) 0))) (\<lambda>P.
     bindS (forS (combo_factors combo) (addCaseS this P)) (\<lambda>_.
       returnS P)))"

definition solveSystemS :: "nat \<Rightarrow> LoadCombination \<Rightarrow> (nat \<times> nat) effect" where
  "solveSystemS this combo =
     bindS (assembleGlobalStiffnessMatrixS this) (\<lambda>K.
     bindS (combinedLoadVectorS this combo) (\<lambda>P.
     bindS (readInstance this) (\<lambda>obj.
     bindS (subMatrixS K (obj_freeDOF obj) (obj_freeDOF obj)) (\<lambda>K11.
     bindS (extractVectorS P (obj_freeDOF obj)) (\<lambda>P1.
     bindS (solveS K11 P1) (\<lambda>D1.
     bindS (newCell (Numbers (replicate (obj_numDOF obj) 0))) (\<lambda>D.
     bindS (setVectorS D (obj_freeDOF obj) D1) (\<lambda>_.
     bindS (multiplyVectorS K D) (\<lambda>reactions.
     bindS (forS [0..<obj_numDOF obj] (\<lambda>i.
              bindS (numberAt P i) (\<lambda>p. addToS reactions i (- p)))) (\<lambda>_.
       returnS (D, reactions)))))))))))"

definition analyzeCombinationS :: "nat \<Rightarrow> string \<Rightarrow> LoadCombination \<Rightarrow> AnalysisResult effect" where
  "analyzeCombinationS this combinationName combo =
     bindS (solveSystemS this combo) (\<lambda>(D, reactions).
     bindS (fieldsOf this) (\<lambda>fields.
     bindS (readNumbers D) (\<lambda>Dv.
     bindS (readNumbers reactions) (\<lambda>Rv.
       let nodeResults = extractNodeResults fields Dv Rv in
       bindS (liftE (extractMemberResults fields Dv combo)) (\<lambda>memberResults.
         returnS \<lparr>res_success = True, res_error = None, res_loadCase = combinationName,
                  res_nodes = nodeResults, res_members = memberResults,
                  res_summary = computeSummary nodeResults memberResults\<rparr>)))))"

text \<open>
  \<open>analyze\<close>: the \<open>catch\<close> turns an error of the body into a failed result; the store
  keeps what the body had written before the error.
\<close>

definition analyzeS :: "nat \<Rightarrow> string \<Rightarrow> store \<Rightarrow> AnalysisResult \<times> store" where
  "analyzeS this combinationName s =
     (case bindS (fieldsOf this) (\<lambda>fields.
             case find (\<lambda>c. combo_name c = combinationName) (loadCombinations (an_model fields)) of
               None \<Rightarrow> returnS (failedResult combinationName (CombinationNotFound combinationName))
             | Some combo \<Rightarrow> analyzeCombinationS this combinationName combo) s of
        (Inl e, s') \<Rightarrow> (failedResult combinationName e, s')
      | (Inr r, s') \<Rightarrow> (r, s'))"

text \<open>The analyzer a reference points to, when it points to one.\<close>

definition analyzerAt :: "store \<Rightarrow> nat \<Rightarrow> Analyzer option" where
  "analyzerAt s this = (case fst (fieldsOf this s) of Inl _ \<Rightarrow> None | Inr an \<Rightarrow> Some an)"


section \<open>Auxiliary notions for the statements\<close>

definition wf_matrix :: "Matrix \<Rightarrow> bool" where
  "wf_matrix m \<longleftrightarrow> length (data m) = rows m \<and> (\<forall>r < rows m. length (data m ! r) = cols m)"

definition nodeDistance :: "Node \<Rightarrow> Node \<Rightarrow> real" where
  "nodeDistance iNode jNode =
     sqrt ((node_x jNode - node_x iNode) * (node_x jNode - node_x iNode)
         + (node_y jNode - node_y iNode) * (node_y jNode - node_y iNode)
         + (node_z jNode - node_z iNode) * (node_z jNode - node_z iNode))"

definition elementValid :: "Member3DElement \<Rightarrow> bool" where
  "elementValid e \<longleftrightarrow>
     el_length e = nodeDistance (el_iNode e) (el_jNode e) \<and> 1 / 10 ^ 10 \<le> el_length e"

definition blockDiagonal :: "Matrix \<Rightarrow> real list list" where
  "blockDiagonal R = [
      [get R 0 0, get R 0 1, get R 0 2, 0, 0, 0, 0, 0, 0, 0, 0, 0],
      [get R 1 0, get R 1 1, get R 1 2, 0, 0, 0, 0, 0, 0, 0, 0, 0],
      [get R 2 0, get R 2 1, get R 2 2, 0, 0, 0, 0, 0, 0, 0, 0, 0],
      [0, 0, 0, get R 0 0, get R 0 1, get R 0 2, 0, 0, 0, 0, 0, 0],
      [0, 0, 0, get R 1 0, get R 1 1, get R 1 2, 0, 0, 0, 0, 0, 0],
      [0, 0, 0, get R 2 0, get R 2 1, get R 2 2, 0, 0, 0, 0, 0, 0],
      [0, 0, 0, 0, 0, 0, get R 0 0, get R 0 1, get R 0 2, 0, 0, 0],
      [0, 0, 0, 0, 0, 0, get R 1 0, get R 1 1, get R 1 2, 0, 0, 0],
      [0, 0, 0, 0, 0, 0, get R 2 0, get R 2 1, get R 2 2, 0, 0, 0],
      [0, 0, 0, 0, 0, 0, 0, 0, 0, get R 0 0, get R 0 1, get R 0 2],
      [0, 0, 0, 0, 0, 0, 0, 0, 0, get R 1 0, get R 1 1, get R 1 2],
      [0, 0, 0, 0, 0, 0, 0, 0, 0, get R 2 0, get R 2 1, get R 2 2]]"

definition localEndForces :: "Matrix \<Rightarrow> Matrix \<Rightarrow> real list \<Rightarrow> nat \<Rightarrow> real" where
  "localEndForces kLocal T d p = (\<Sum>q<12. get kLocal p q * (\<Sum>r<12. get T q r * d ! r))"

definition exNodeI :: Node where
  "exNodeI = \<lparr>node_id = ''N1'', node_x = 0, node_y = 0, node_z = 0\<rparr>"

definition exNodeJ :: Node where
  "exNodeJ = \<lparr>node_id = ''N2'', node_x = 1, node_y = 0, node_z = 0\<rparr>"

definition exMaterial :: Material where
  "exMaterial = \<lparr>mat_id = ''Steel'', mat_E = 1, mat_G = 1, mat_nu = 3 / 10, mat_rho = 1\<rparr>"

definition exSection :: Section where
  "exSection = \<lparr>sec_id = ''S1'', sec_A = 1, sec_Iy = 1, sec_Iz = 1, sec_J = 1\<rparr>"

definition exMember :: Member where
  "exMember = \<lparr>mem_id = ''M1'', mem_iNode = ''N1'', mem_jNode = ''N2'',
                mem_material = ''Steel'', mem_section = ''S1'', mem_rotation = None\<rparr>"

definition exElement :: Member3DElement where
  "exElement = \<lparr>el_id = ''M1'', el_iNode = exNodeI, el_jNode = exNodeJ,
                 el_material = exMaterial, el_section = exSection,
                 el_rotation = 0, el_length = 1\<rparr>"

definition identity12 :: Matrix where
  "identity12 = \<lparr>rows = 12, cols = 12, data = [
      [1, 0, 0, 0, 0, 0, 0, 0, 0, 0, 0, 0],
      [0, 1, 0, 0, 0, 0, 0, 0, 0, 0, 0, 0],
      [0, 0, 1, 0, 0, 0, 0, 0, 0, 0, 0, 0],
      [0, 0, 0, 1, 0, 0, 0, 0, 0, 0, 0, 0],
      [0, 0, 0, 0, 1, 0, 0, 0, 0, 0, 0, 0],
      [0, 0, 0, 0, 0, 1, 0, 0, 0, 0, 0, 0],
      [0, 0, 0, 0, 0, 0, 1, 0, 0, 0, 0, 0],
      [0, 0, 0, 0, 0, 0, 0, 1, 0, 0, 0, 0],
      [0, 0, 0, 0, 0, 0, 0, 0, 1, 0, 0, 0],
      [0, 0, 0, 0, 0, 0, 0, 0, 0, 1, 0, 0],
      [0, 0, 0, 0, 0, 0, 0, 0, 0, 0, 1, 0],
      [0, 0, 0, 0, 0, 0, 0, 0, 0, 0, 0, 1]]\<rparr>"

definition exLoad :: "MemberLoadType \<Rightarrow> string \<Rightarrow> real option \<Rightarrow> MemberLoad" where
  "exLoad ty dir pos =
     \<lparr>ml_member = ''M1'', ml_type = ty, ml_direction = dir, ml_magnitude = Some 1,
      ml_w1 = None, ml_w2 = None, ml_x1 = None, ml_x2 = None, ml_x = pos\<rparr>"

definition samplePoint :: "Member3DElement \<Rightarrow> (nat \<Rightarrow> real) \<Rightarrow> nat \<Rightarrow> nat \<Rightarrow> ForcePoint" where
  "samplePoint e f numPoints i =
     \<lparr>fp_x = real i / real numPoints * el_length e,
      fp_forces = map (\<lambda>c. f c * (1 - real i / real numPoints * el_length e / el_length e)
                          + f (c + 6) * (real i / real numPoints * el_length e / el_length e))
                      [0..<6]\<rparr>"

definition exCombination :: "real \<Rightarrow> LoadCombination" where
  "exCombination factor = \<lparr>combo_name = ''C1'', combo_factors = [(''A'', factor)]\<rparr>"

definition zeroLengthModel :: StanalModel where
  "zeroLengthModel =
     \<lparr>materials = [exMaterial], sections = [exSection],
      nodes = [exNodeI, exNodeI\<lparr>node_id := ''N2''\<rparr>],
      members = [exMember], supports = [], loadCases = [],
      loadCombinations = [exCombination 1]\<rparr>"

definition analyzerValid :: "Analyzer \<Rightarrow> bool" where
  "analyzerValid an \<longleftrightarrow>
     numDOF an = length (nodes (an_model an)) * 6 \<and>
     (\<forall>e \<in> set (elements an).
        elementValid e \<and>
        (\<exists>i j. nodeIndexMap an (node_id (el_iNode e)) = Some i \<and> i < length (nodes (an_model an))
             \<and> nodeIndexMap an (node_id (el_jNode e)) = Some j \<and> j < length (nodes (an_model an))))"

definition exModel :: StanalModel where
  "exModel =
     \<lparr>materials = [exMaterial], sections = [exSection],
      nodes = [exNodeI, exNodeJ],
      members = [exMember],
      supports = [\<lparr>sup_node = ''N1'', sup_dx = True, sup_dy = True, sup_dz = True,
                   sup_rx = True, sup_ry = True, sup_rz = True\<rparr>],
      loadCases = [\<lparr>lc_name = ''A'',
                    lc_nodeLoads = [\<lparr>nl_node = ''N2'', nl_direction = ''FY'', nl_magnitude = - 1\<rparr>],
                    lc_memberLoads = []\<rparr>],
      loadCombinations = [exCombination 1, (exCombination 2)\<lparr>combo_name := ''C2''\<rparr>]\<rparr>"

definition exAnalyzer :: Analyzer where
  "exAnalyzer =
     \<lparr>an_model = exModel, nodeMap = buildMap node_id (nodes exModel),
      nodeIndexMap = buildIndexMap (nodes exModel),
      materialMap = buildMap mat_id (materials exModel),
      sectionMap = buildMap sec_id (sections exModel),
      supportMap = buildMap sup_node (supports exModel), elements = [exElement],
      numDOF = 12, freeDOF = [6, 7, 8, 9, 10, 11], fixedDOF = [0, 1, 2, 3, 4, 5]\<rparr>"

definition stiffnessPattern ::
    "real \<Rightarrow> real \<Rightarrow> real \<Rightarrow> real \<Rightarrow> real \<Rightarrow> real \<Rightarrow> real \<Rightarrow> real \<Rightarrow> real \<Rightarrow> real \<Rightarrow> real list list" where
  "stiffnessPattern EA_L GJ_L k_y1 k_y2 k_y3 k_y4 k_z1 k_z2 k_z3 k_z4 =
     [[EA_L, 0, 0, 0, 0, 0, - EA_L, 0, 0, 0, 0, 0],
      [0, k_y1, 0, 0, 0, k_y2, 0, - k_y1, 0, 0, 0, k_y2],
      [0, 0, k_z1, 0, - k_z2, 0, 0, 0, - k_z1, 0, - k_z2, 0],
      [0, 0, 0, GJ_L, 0, 0, 0, 0, 0, - GJ_L, 0, 0],
      [0, 0, - k_z2, 0, k_z3, 0, 0, 0, k_z2, 0, k_z4, 0],
      [0, k_y2, 0, 0, 0, k_y3, 0, - k_y2, 0, 0, 0, k_y4],
      [- EA_L, 0, 0, 0, 0, 0, EA_L, 0, 0, 0, 0, 0],
      [0, - k_y1, 0, 0, 0, - k_y2, 0, k_y1, 0, 0, 0, - k_y2],
      [0, 0, - k_z1, 0, k_z2, 0, 0, 0, k_z1, 0, k_z2, 0],
      [0, 0, 0, - GJ_L, 0, 0, 0, 0, 0, GJ_L, 0, 0],
      [0, 0, - k_z2, 0, k_z4, 0, 0, 0, k_z2, 0, k_z3, 0],
      [0, k_y2, 0, 0, 0, k_y4, 0, - k_y2, 0, 0, 0, k_y3]]"

definition symmetricOfSize :: "nat \<Rightarrow> Matrix \<Rightarrow> bool" where
  "symmetricOfSize n K \<longleftrightarrow>
     wf_matrix K \<and> rows K = n \<and> cols K = n \<and> (\<forall>i<n. \<forall>j<n. get K i j = get K j i)"

definition translationBalanced :: "nat \<Rightarrow> nat \<Rightarrow> Matrix \<Rightarrow> bool" where
  "translationBalanced n c K \<longleftrightarrow> (\<forall>q<n * 6. (\<Sum>t<n. get K (t * 6 + c) q) = 0)"

definition stiffnessInvariant :: "nat \<Rightarrow> Matrix \<Rightarrow> bool" where
  "stiffnessInvariant n K \<longleftrightarrow>
     symmetricOfSize (n * 6) K \<and> (\<forall>c<3. translationBalanced n c K)"

definition exStiffness :: Matrix where
  "exStiffness = \<lparr>rows = 12, cols = 12, data =
     [[1, 0, 0, 0, 0, 0, - 1, 0, 0, 0, 0, 0],
      [0, 12, 0, 0, 0, 6, 0, - 12, 0, 0, 0, 6],
      [0, 0, 12, 0, - 6, 0, 0, 0, - 12, 0, - 6, 0],
      [0, 0, 0, 1, 0, 0, 0, 0, 0, - 1, 0, 0],
      [0, 0, - 6, 0, 4, 0, 0, 0, 6, 0, 2, 0],
      [0, 6, 0, 0, 0, 4, 0, - 6, 0, 0, 0, 2],
      [- 1, 0, 0, 0, 0, 0, 1, 0, 0, 0, 0, 0],
      [0, - 12, 0, 0, 0, - 6, 0, 12, 0, 0, 0, - 6],
      [0, 0, - 12, 0, 6, 0, 0, 0, 12, 0, 6, 0],
      [0, 0, 0, - 1, 0, 0, 0, 0, 0, 1, 0, 0],
      [0, 0, - 6, 0, 2, 0, 0, 0, 6, 0, 4, 0],
      [0, 6, 0, 0, 0, 2, 0, - 6, 0, 0, 0, 4]]\<rparr>"

definition exK11 :: Matrix where
  "exK11 = \<lparr>rows = 6, cols = 6, data =
     [[1, 0, 0, 0, 0, 0],
      [0, 12, 0, 0, 0, - 6],
      [0, 0, 12, 0, 6, 0],
      [0, 0, 0, 1, 0, 0],
      [0, 0, 6, 0, 4, 0],
      [0, - 6, 0, 0, 0, 4]]\<rparr>"

definition dofComponent :: "NodeDOF \<Rightarrow> nat \<Rightarrow> real" where
  "dofComponent d c = [dof_dx d, dof_dy d, dof_dz d, dof_rx d, dof_ry d, dof_rz d] ! c"

definition exP :: "real list" where
  "exP = [0, 0, 0, 0, 0, 0, 0, - 1, 0, 0, 0, 0]"

definition exD :: "real list" where
  "exD = [0, 0, 0, 0, 0, 0, 0, - 1 / 3, 0, 0, 0, - 1 / 2]"

definition exReactions :: "real list" where
  "exReactions = [0, 1, 0, 0, 0, 1, 0, 0, 0, 0, 0, 0]"

definition elementD :: "real list \<Rightarrow> nat \<Rightarrow> nat \<Rightarrow> real list" where
  "elementD D iIndex jIndex =
     [D ! (iIndex * 6), D ! (iIndex * 6 + 1), D ! (iIndex * 6 + 2),
      D ! (iIndex * 6 + 3), D ! (iIndex * 6 + 4), D ! (iIndex * 6 + 5),
      D ! (jIndex * 6), D ! (jIndex * 6 + 1), D ! (jIndex * 6 + 2),
      D ! (jIndex * 6 + 3), D ! (jIndex * 6 + 4), D ! (jIndex * 6 + 5)]"

definition memberResultFrom :: "Member3DElement \<Rightarrow> ForcePoint list \<Rightarrow> MemberResult" where
  "memberResultFrom element forcePoints =
     (let forces =
            map (\<lambda>fp. \<lparr>mf_x = fp_x fp,
                       mf_axial = fp_forces fp ! 0,
                       mf_shearY = fp_forces fp ! 1,
                       mf_shearZ = fp_forces fp ! 2,
                       mf_torsion = fp_forces fp ! 3,
                       mf_momentY = fp_forces fp ! 4,
                       mf_momentZ = fp_forces fp ! 5\<rparr>) forcePoints;
          maxForces =
            \<lparr>max_axial = findMax forces mf_axial,
             max_shearY = findMax forces mf_shearY,
             max_shearZ = findMax forces mf_shearZ,
             max_momentY = findMax forces mf_momentY,
             max_momentZ = findMax forces mf_momentZ\<rparr>
      in \<lparr>mr_memberId = el_id element, mr_forces = forces, mr_maxForces = maxForces\<rparr>)"

definition memberResultPure :: "Analyzer \<Rightarrow> real list \<Rightarrow> Member3DElement \<Rightarrow> MemberResult" where
  "memberResultPure an D e =
     memberResultFrom e
       (map (samplePoint e
               (localEndForces (localStiffnessMatrix e) (projr (transformationMatrix e))
                  (elementD D (the (nodeIndexMap an (node_id (el_iNode e))))
                              (the (nodeIndexMap an (node_id (el_jNode e)))))) 11)
            [0..<12])"

definition scaleRhs :: "real \<Rightarrow> Matrix \<times> real list \<Rightarrow> Matrix \<times> real list" where
  "scaleRhs c = (\<lambda>(A, x). (A, map ((*) c) x))"

definition constrained :: "Node list \<Rightarrow> (string \<rightharpoonup> Support) \<Rightarrow> nat \<Rightarrow> bool" where
  "constrained ns sm d = constraintsOf (sm (node_id (ns ! (d div 6)))) ! (d mod 6)"

definition scaleDOF :: "real \<Rightarrow> NodeDOF \<Rightarrow> NodeDOF" where
  "scaleDOF c d =
     \<lparr>dof_dx = c * dof_dx d, dof_dy = c * dof_dy d, dof_dz = c * dof_dz d,
      dof_rx = c * dof_rx d, dof_ry = c * dof_ry d, dof_rz = c * dof_rz d\<rparr>"

definition scaleNodeResult :: "real \<Rightarrow> NodeResult \<Rightarrow> NodeResult" where
  "scaleNodeResult c r =
     \<lparr>nr_nodeId = nr_nodeId r, nr_displacement = scaleDOF c (nr_displacement r),
      nr_reaction = scaleDOF c (nr_reaction r)\<rparr>"

definition scaleForces :: "real \<Rightarrow> MemberForces \<Rightarrow> MemberForces" where
  "scaleForces c f =
     \<lparr>mf_x = mf_x f, mf_axial = c * mf_axial f, mf_shearY = c * mf_shearY f,
      mf_shearZ = c * mf_shearZ f, mf_torsion = c * mf_torsion f,
      mf_momentY = c * mf_momentY f, mf_momentZ = c * mf_momentZ f\<rparr>"

definition scaleMax :: "real \<Rightarrow> MaxForce \<Rightarrow> MaxForce" where
  "scaleMax c m = \<lparr>mx_value = c * mx_value m, mx_location = mx_location m\<rparr>"

definition scaleMaxForces :: "real \<Rightarrow> MaxForces \<Rightarrow> MaxForces" where
  "scaleMaxForces c m =
     \<lparr>max_axial = scaleMax c (max_axial m), max_shearY = scaleMax c (max_shearY m),
      max_shearZ = scaleMax c (max_shearZ m), max_momentY = scaleMax c (max_momentY m),
      max_momentZ = scaleMax c (max_momentZ m)\<rparr>"

definition scaleMemberResult :: "real \<Rightarrow> MemberResult \<Rightarrow> MemberResult" where
  "scaleMemberResult c r =
     \<lparr>mr_memberId = mr_memberId r, mr_forces = map (scaleForces c) (mr_forces r),
      mr_maxForces = scaleMaxForces c (mr_maxForces r)\<rparr>"

definition scaleNodeExtremum :: "real \<Rightarrow> NodeExtremum \<Rightarrow> NodeExtremum" where
  "scaleNodeExtremum c e =
     \<lparr>ne_nodeId = ne_nodeId e, ne_value = c * ne_value e, ne_direction = ne_direction e\<rparr>"

definition scaleMemberExtremum :: "real \<Rightarrow> MemberExtremum \<Rightarrow> MemberExtremum" where
  "scaleMemberExtremum c e =
     \<lparr>me_memberId = me_memberId e, me_value = c * me_value e, me_location = me_location e\<rparr>"

definition scaleSummary :: "real \<Rightarrow> Summary \<Rightarrow> Summary" where
  "scaleSummary c s =
     \<lparr>maxDisplacement = scaleNodeExtremum c (maxDisplacement s),
      maxReaction = scaleNodeExtremum c (maxReaction s),
      maxMoment = scaleMemberExtremum c (maxMoment s),
      maxShear = scaleMemberExtremum c (maxShear s)\<rparr>"

definition scaleResult :: "real \<Rightarrow> AnalysisResult \<Rightarrow> AnalysisResult" where
  "scaleResult c r =
     \<lparr>res_success = res_success r, res_error = res_error r, res_loadCase = res_loadCase r,
      res_nodes = map (scaleNodeResult c) (res_nodes r),
      res_members = map (scaleMemberResult c) (res_members r),
      res_summary = scaleSummary c (res_summary r)\<rparr>"

definition scaleSolution :: "real \<Rightarrow> Solution \<Rightarrow> Solution" where
  "scaleSolution c sol =
     \<lparr>sol_K = sol_K sol, sol_P = map ((*) c) (sol_P sol), sol_D = map ((*) c) (sol_D sol),
      sol_reactions = map ((*) c) (sol_reactions sol)\<rparr>"

definition squareOfSize :: "nat \<Rightarrow> Matrix \<Rightarrow> bool" where
  "squareOfSize n A \<longleftrightarrow> wf_matrix A \<and> rows A = n \<and> cols A = n"

definition swappedEntry :: "Matrix \<Rightarrow> nat \<Rightarrow> nat \<Rightarrow> nat \<Rightarrow> nat \<Rightarrow> real" where
  "swappedEntry A k m r c = (if r = k then get A m c else if r = m then get A k c else get A r c)"

definition eliminatedEntry :: "Matrix \<Rightarrow> nat \<Rightarrow> real \<Rightarrow> nat \<Rightarrow> nat \<Rightarrow> real" where
  "eliminatedEntry A k akk r c =
     (if c = k then get A r k / akk
      else if k < c then get A r c - get A r k / akk * get A k c
      else get A r c)"

definition clampedModel :: StanalModel where
  "clampedModel =
     exModel\<lparr>supports :=
       [\<lparr>sup_node = ''N1'', sup_dx = True, sup_dy = True, sup_dz = True,
         sup_rx = True, sup_ry = True, sup_rz = True\<rparr>,
        \<lparr>sup_node = ''N2'', sup_dx = True, sup_dy = True, sup_dz = True,
         sup_rx = True, sup_ry = True, sup_rz = True\<rparr>]\<rparr>"

definition solvesSystem :: "nat \<Rightarrow> (nat \<Rightarrow> nat \<Rightarrow> real) \<Rightarrow> (nat \<Rightarrow> real) \<Rightarrow> (nat \<Rightarrow> real) \<Rightarrow> bool" where
  "solvesSystem n M q y \<longleftrightarrow> (\<forall>r<n. (\<Sum>c<n. M r c * y c) = q r)"

definition upperFrom :: "nat \<Rightarrow> Matrix \<Rightarrow> nat \<Rightarrow> nat \<Rightarrow> real" where
  "upperFrom k A r c = (if c < k \<and> c < r then 0 else get A r c)"

definition swapIndex :: "nat \<Rightarrow> nat \<Rightarrow> nat \<Rightarrow> nat" where
  "swapIndex k m r = (if r = k then m else if r = m then k else r)"


definition owned :: "store \<Rightarrow> Matrix \<Rightarrow> real list \<Rightarrow> nat list \<Rightarrow> store" where
  "owned s m v p = s @ [Grid m, Numbers v, Indices p]"

definition unchanged :: "store \<Rightarrow> store \<Rightarrow> bool" where
  "unchanged s s' \<longleftrightarrow> take (length s) s' = s"

definition gridOf :: "cell \<Rightarrow> Matrix" where
  "gridOf c = (case c of Grid m \<Rightarrow> m | _ \<Rightarrow> zeros 0 0)"

definition numbersOf :: "cell \<Rightarrow> real list" where
  "numbersOf c = (case c of Numbers v \<Rightarrow> v | _ \<Rightarrow> [])"

definition gridCell :: "store \<Rightarrow> nat \<Rightarrow> store \<Rightarrow> bool" where
  "gridCell s0 K s \<longleftrightarrow> unchanged s0 s \<and> K < length s \<and> (\<exists>m. s ! K = Grid m)"

definition numbersCell :: "store \<Rightarrow> nat \<Rightarrow> store \<Rightarrow> bool" where
  "numbersCell s0 P s \<longleftrightarrow> unchanged s0 s \<and> P < length s \<and> (\<exists>v. s ! P = Numbers v)"

definition exStore :: store where
  "exStore = snd (new_AnalyzerS exModel [])"

section \<open>Facts about the matrix operations\<close>

lemma upt_3: "[0..<3] = [0, 1, 2]" by code_simp
lemma upt_4: "[0..<4] = [0, 1, 2, 3]" by code_simp
lemma upt_6: "[0..<6] = [0, 1, 2, 3, 4, 5]" by code_simp
lemma upt_12: "[0..<12] = [0, 1, 2, 3, 4, 5, 6, 7, 8, 9, 10, 11]" by code_simp

lemma fold_plus_sum_list: "fold (\<lambda>k s. s + f k) xs (s0::real) = s0 + sum_list (map f xs)"
  by (induction xs arbitrary: s0) (simp_all add: add.assoc)

lemma sum_loop_sum: "sum_loop f n = (\<Sum>k<n. f k)"
  by (simp add: sum_loop_def fold_plus_sum_list interv_sum_list_conv_sum_set_nat atLeast0LessThan)

lemma bindE_Inr [simp]: "bindE (Inr v) f = f v"
  by (simp add: bindE_def)

lemma bindE_Inl [simp]: "bindE (Inl e) f = Inl e"
  by (simp add: bindE_def)

lemma bindE_eq_Inr: "bindE m f = Inr r \<longleftrightarrow> (\<exists>v. m = Inr v \<and> f v = Inr r)"
  by (cases m) simp_all

lemma rows_set_m [simp]: "rows (set_m m i j v) = rows m"
  by (simp add: set_m_def)

lemma cols_set_m [simp]: "cols (set_m m i j v) = cols m"
  by (simp add: set_m_def)

lemma get_set_m:
  "get (set_m m i j v) r c =
     (if r = i \<and> c = j \<and> i < length (data m) \<and> j < length (data m ! i) then v else get m r c)"
proof (cases "i < length (data m)")
  case True
  then show ?thesis
    by (cases "j < length (data m ! i)") (auto simp: get_def set_m_def nth_list_update list_update_beyond)
next
  case False
  then show ?thesis by (simp add: get_def set_m_def list_update_beyond)
qed

lemma wf_set_m [simp]: "wf_matrix m \<Longrightarrow> wf_matrix (set_m m i j v)"
  by (cases "i < length (data m)") (auto simp: wf_matrix_def set_m_def nth_list_update)

lemma get_set_m_wf:
  "wf_matrix m \<Longrightarrow> i < rows m \<Longrightarrow> j < cols m \<Longrightarrow>
   get (set_m m i j v) r c = (if r = i \<and> c = j then v else get m r c)"
  by (auto simp: get_set_m wf_matrix_def)

lemma rows_add_m [simp]: "rows (add_m m i j v) = rows m"
  by (simp add: add_m_def)

lemma cols_add_m [simp]: "cols (add_m m i j v) = cols m"
  by (simp add: add_m_def)

lemma wf_add_m [simp]: "wf_matrix m \<Longrightarrow> wf_matrix (add_m m i j v)"
  by (simp add: add_m_def)

lemma get_add_m_wf:
  "wf_matrix m \<Longrightarrow> i < rows m \<Longrightarrow> j < cols m \<Longrightarrow>
   get (add_m m i j v) r c = (if r = i \<and> c = j then get m i j + v else get m r c)"
  by (simp add: add_m_def get_set_m_wf)

lemma rows_zeros [simp]: "rows (zeros r c) = r"
  by (simp add: zeros_def Matrix_new_def)

lemma cols_zeros [simp]: "cols (zeros r c) = c"
  by (simp add: zeros_def Matrix_new_def)

lemma wf_zeros [simp]: "wf_matrix (zeros r c)"
  by (simp add: wf_matrix_def zeros_def Matrix_new_def)

lemma get_zeros [simp]: "i < r \<Longrightarrow> j < c \<Longrightarrow> get (zeros r c) i j = 0"
  by (simp add: get_def zeros_def Matrix_new_def)

lemma multiply_Inr:
  "cols a = rows b \<Longrightarrow> \<exists>m. multiply a b = Inr m \<and> rows m = rows a \<and> cols m = cols b \<and> wf_matrix m
     \<and> (\<forall>i < rows a. \<forall>j < cols b. get m i j = (\<Sum>k < cols a. get a i k * get b k j))"
  by (simp add: multiply_def wf_matrix_def get_def sum_loop_sum)

lemma multiply_eq_Inr:
  assumes "multiply a b = Inr m"
  shows "cols a = rows b" and "rows m = rows a" and "cols m = cols b" and "wf_matrix m"
    and "\<And>i j. i < rows a \<Longrightarrow> j < cols b \<Longrightarrow> get m i j = (\<Sum>k < cols a. get a i k * get b k j)"
  using assms by (auto simp: multiply_def wf_matrix_def get_def sum_loop_sum split: if_splits)

lemma rows_transpose_m [simp]: "rows (transpose_m a) = cols a"
  by (simp add: transpose_m_def)

lemma cols_transpose_m [simp]: "cols (transpose_m a) = rows a"
  by (simp add: transpose_m_def)

lemma wf_transpose_m [simp]: "wf_matrix (transpose_m a)"
  by (simp add: wf_matrix_def transpose_m_def)

lemma get_transpose_m [simp]:
  "i < rows a \<Longrightarrow> j < cols a \<Longrightarrow> get (transpose_m a) j i = get a i j"
  by (simp add: transpose_m_def get_def)

lemma rows_fromArray [simp]: "rows (fromArray arr) = length arr"
  by (simp add: fromArray_def Let_def)

lemma cols_fromArray_single [simp]: "cols (fromArray [v]) = length v"
  by (simp add: fromArray_def Let_def)

lemma get_fromArray_single [simp]: "j < length v \<Longrightarrow> get (fromArray [v]) 0 j = v ! j"
  by (simp add: fromArray_def Let_def get_def)

section \<open>Facts about the frame element\<close>

lemma new_Member3DElement_valid:
  "new_Member3DElement member iNode jNode material section = Inr e \<Longrightarrow> elementValid e"
  by (auto simp: new_Member3DElement_def elementValid_def nodeDistance_def Let_def split: if_splits)

lemma localStiffnessMatrix_data:
  "data (localStiffnessMatrix e) =
     (let E = mat_E (el_material e);
          G = mat_G (el_material e);
          A = sec_A (el_section e);
          Iy = sec_Iy (el_section e);
          Iz = sec_Iz (el_section e);
          J = sec_J (el_section e);
          L = el_length e;
          L2 = L * L;
          L3 = L2 * L;
          EA_L = E * A / L;
          GJ_L = G * J / L;
          EIz = E * Iz;
          k_y1 = 12 * EIz / L3;
          k_y2 = 6 * EIz / L2;
          k_y3 = 4 * EIz / L;
          k_y4 = 2 * EIz / L;
          EIy = E * Iy;
          k_z1 = 12 * EIy / L3;
          k_z2 = 6 * EIy / L2;
          k_z3 = 4 * EIy / L;
          k_z4 = 2 * EIy / L
      in
[[EA_L, 0, 0, 0, 0, 0, - EA_L, 0, 0, 0, 0, 0],
 [0, k_y1, 0, 0, 0, k_y2, 0, - k_y1, 0, 0, 0, k_y2],
 [0, 0, k_z1, 0, - k_z2, 0, 0, 0, - k_z1, 0, - k_z2, 0],
 [0, 0, 0, GJ_L, 0, 0, 0, 0, 0, - GJ_L, 0, 0],
 [0, 0, - k_z2, 0, k_z3, 0, 0, 0, k_z2, 0, k_z4, 0],
 [0, k_y2, 0, 0, 0, k_y3, 0, - k_y2, 0, 0, 0, k_y4],
 [- EA_L, 0, 0, 0, 0, 0, EA_L, 0, 0, 0, 0, 0],
 [0, - k_y1, 0, 0, 0, - k_y2, 0, k_y1, 0, 0, 0, - k_y2],
 [0, 0, - k_z1, 0, k_z2, 0, 0, 0, k_z1, 0, k_z2, 0],
 [0, 0, 0, - GJ_L, 0, 0, 0, 0, 0, GJ_L, 0, 0],
 [0, 0, - k_z2, 0, k_z4, 0, 0, 0, k_z2, 0, k_z3, 0],
 [0, k_y2, 0, 0, 0, k_y4, 0, - k_y2, 0, 0, 0, k_y3]])"
  by (simp add: localStiffnessMatrix_def Let_def set_m_def zeros_def Matrix_new_def numeral_eq_Suc)

lemma rows_localStiffnessMatrix [simp]: "rows (localStiffnessMatrix e) = 12"
  by (simp add: localStiffnessMatrix_def Let_def)

lemma cols_localStiffnessMatrix [simp]: "cols (localStiffnessMatrix e) = 12"
  by (simp add: localStiffnessMatrix_def Let_def)

lemma wf_localStiffnessMatrix [simp]: "wf_matrix (localStiffnessMatrix e)"
  by (simp add: localStiffnessMatrix_def Let_def)


lemma cols_fromArray_Cons: "cols (fromArray (a # as)) = length a"
  by (simp add: fromArray_def Let_def)

lemma createRotationMatrix_Inr:
  assumes "elementValid e"
  shows "\<exists>R. createRotationMatrix (el_iNode e) (el_jNode e) rot = Inr R \<and> rows R = 3 \<and> cols R = 3"
proof -
  have L: "\<not> nodeDistance (el_iNode e) (el_jNode e) < 1 / 10 ^ 10"
    using assms by (simp add: elementValid_def)
  have "case createRotationMatrix (el_iNode e) (el_jNode e) rot of
          Inl _ \<Rightarrow> False | Inr R \<Rightarrow> rows R = 3 \<and> cols R = 3"
  proof (cases "\<bar>rot\<bar> > 1 / 10 ^ 10")
    case True
    with L show ?thesis
      unfolding createRotationMatrix_def nodeDistance_def
      by (simp only: Let_def if_False if_True prod.case sum.case rows_transpose_m
            cols_transpose_m rows_fromArray cols_fromArray_Cons list.size) simp_all
  next
    case False
    with L show ?thesis
      unfolding createRotationMatrix_def nodeDistance_def
      by (simp only: Let_def if_False if_True prod.case sum.case rows_transpose_m
            cols_transpose_m rows_fromArray cols_fromArray_Cons list.size) simp_all
  qed
  then show ?thesis
    by (cases "createRotationMatrix (el_iNode e) (el_jNode e) rot") simp_all
qed

lemma transformation_fold_data:
  "data (fold (\<lambda>block T.
                    let offset = block * 3 in
                    fold (\<lambda>i T. fold (\<lambda>j T. set_m T (offset + i) (offset + j) (get R i j))
                                      [0..<3] T)
                         [0..<3] T)
                 [0..<4] (zeros 12 12)) = blockDiagonal R"
  apply (simp add: upt_3 upt_4)
  apply (simp add: set_m_def zeros_def Matrix_new_def blockDiagonal_def numeral_eq_Suc)
  done

lemma transformation_fold_dims:
  "rows (fold (\<lambda>block T.
                    let offset = block * 3 in
                    fold (\<lambda>i T. fold (\<lambda>j T. set_m T (offset + i) (offset + j) (get R i j))
                                      [0..<3] T)
                         [0..<3] T)
                 [0..<4] (zeros 12 12)) = 12 \<and>
   cols (fold (\<lambda>block T.
                    let offset = block * 3 in
                    fold (\<lambda>i T. fold (\<lambda>j T. set_m T (offset + i) (offset + j) (get R i j))
                                      [0..<3] T)
                         [0..<3] T)
                 [0..<4] (zeros 12 12)) = 12"
  by (simp add: upt_3 upt_4)

lemma transformationMatrix_Inr:
  assumes "elementValid e"
  obtains T R where "transformationMatrix e = Inr T" and "rows T = 12" and "cols T = 12"
    and "data T = blockDiagonal R"
proof -
  obtain R where "createRotationMatrix (el_iNode e) (el_jNode e) (el_rotation e) = Inr R"
    using createRotationMatrix_Inr [OF assms] by blast
  then show ?thesis
    using that
    by (simp add: transformationMatrix_def createTransformationMatrix_def
          transformation_fold_data transformation_fold_dims)
qed

lemma all_less_12:
  "(\<forall>p<12. P p) \<longleftrightarrow>
     P (11::nat) \<and> P 10 \<and> P 9 \<and> P 8 \<and> P 7 \<and> P 6 \<and> P 5 \<and> P 4 \<and> P 3 \<and> P 2 \<and> P 1 \<and> P 0"
  by (simp add: numeral_eq_Suc All_less_Suc)

lemma wf_blockDiagonal: "rows T = 12 \<Longrightarrow> cols T = 12 \<Longrightarrow> data T = blockDiagonal R \<Longrightarrow> wf_matrix T"
  by (simp add: wf_matrix_def blockDiagonal_def all_less_12)

lemma ex_new: "new_Member3DElement exMember exNodeI exNodeJ exMaterial exSection = Inr exElement"
  by (simp add: new_Member3DElement_def exMember_def exNodeI_def exNodeJ_def exElement_def)

lemma ex_rotation:
  "createRotationMatrix exNodeI exNodeJ 0 =
     Inr \<lparr>rows = 3, cols = 3, data = [[1, 0, 0], [0, 1, 0], [0, 0, 1]]\<rparr>"
  by (simp add: createRotationMatrix_def exNodeI_def exNodeJ_def Let_def transpose_m_def
        fromArray_def get_def upt_3)

lemma ex_transformation: "transformationMatrix exElement = Inr identity12"
  apply (simp add: transformationMatrix_def createTransformationMatrix_def exElement_def
        ex_rotation upt_3 upt_4)
  apply (simp add: set_m_def zeros_def Matrix_new_def get_def identity12_def numeral_eq_Suc)
  done

lemma length_addTo [simp]: "length (addTo fer i v) = length fer"
  by (simp add: addTo_def)

lemma length_addUniformLoadFER [simp]: "length (addUniformLoadFER fer dir w x1 x2 L) = length fer"
  by (simp add: addUniformLoadFER_def Let_def)

lemma length_addLinearLoadFER [simp]: "length (addLinearLoadFER fer dir w1 w2 x1 x2 L) = length fer"
  by (simp add: addLinearLoadFER_def Let_def)

lemma length_addPointLoadFER [simp]: "length (addPointLoadFER fer dir P a L) = length fer"
  by (simp add: addPointLoadFER_def Let_def)

lemma length_ferStep [simp]: "length (ferStep e load fer) = length fer"
  by (simp add: ferStep_def Let_def)

lemma length_fold_ferStep [simp]: "length (fold (ferStep e) loads fer) = length fer"
  by (induction loads arbitrary: fer) simp_all

lemma fixedEndReactions_Inr:
  assumes "elementValid e"
  shows "\<exists>fer. fixedEndReactions e loads = Inr fer \<and> length fer = 12"
proof -
  obtain T and R :: Matrix where T: "transformationMatrix e = Inr T" "rows T = 12" "cols T = 12"
    using transformationMatrix_Inr [OF assms] by blast
  let ?ferLocal = "transpose_m (fromArray [fold (ferStep e) loads (replicate 12 0)])"
  have "cols (transpose_m T) = rows ?ferLocal"
    using T by simp
  then obtain m where "multiply (transpose_m T) ?ferLocal = Inr m"
    using multiply_Inr by blast
  then show ?thesis
    using T by (simp add: fixedEndReactions_def)
qed

lemma ferStep_Moment: "ml_type load = Moment \<Longrightarrow> ferStep e load fer = fer"
  by (simp add: ferStep_def Let_def)

lemma ferStep_Point_zero:
  assumes "ml_type load = Point"
  shows "ferStep e (load\<lparr>ml_x := Some 0\<rparr>) fer = ferStep e (load\<lparr>ml_x := Some (1 / 2)\<rparr>) fer"
    and "ferStep e (load\<lparr>ml_x := None\<rparr>) fer = ferStep e (load\<lparr>ml_x := Some (1 / 2)\<rparr>) fer"
    and "ferStep e (load\<lparr>ml_x := Some 0\<rparr>) fer =
           (if ml_member load \<noteq> el_id e then fer
            else addPointLoadFER fer (toUpperCase (ml_direction load))
                   (orDefault (ml_magnitude load) 0) (1 / 2 * el_length e) (el_length e))"
  using assms by (simp_all add: ferStep_def Let_def orDefault_def)

lemma ex_fer_point_zero:
  "fixedEndReactions exElement [exLoad Point ''FY'' (Some 0)] =
     Inr [0, 1 / 2, 0, 0, 0, 1 / 8, 0, 1 / 2, 0, 0, 0, - 1 / 8]"
  apply (simp add: fixedEndReactions_def ex_transformation)
  apply (simp add: ferStep_def exLoad_def exElement_def toUpperCase_def upperChar_def
      orDefault_def addPointLoadFER_def addTo_def Let_def numeral_eq_Suc)
  apply (simp add: multiply_def transpose_m_def fromArray_def identity12_def upt_12 get_def
      sum_loop_def Let_def)
  done

lemma less_6_cases: "c < 6 \<Longrightarrow> c = 0 \<or> c = 1 \<or> c = 2 \<or> c = 3 \<or> c = 4 \<or> c = (5::nat)"
  by arith

lemma computeMemberForces_eq:
  assumes "elementValid e" and "length d = 12"
  obtains T where "transformationMatrix e = Inr T"
    and "\<And>loads numPoints. computeMemberForces e d loads numPoints =
           Inr (map (samplePoint e (localEndForces (localStiffnessMatrix e) T d) numPoints)
                    [0..<Suc numPoints])"
proof -
  obtain T and R :: Matrix where T: "transformationMatrix e = Inr T" "rows T = 12" "cols T = 12"
    using transformationMatrix_Inr [OF assms(1)] by blast
  let ?dG = "transpose_m (fromArray [d])"
  let ?kL = "localStiffnessMatrix e"
  have "cols T = rows ?dG" using T assms(2) by simp
  from multiply_Inr [OF this] obtain dL where dL: "multiply T ?dG = Inr dL" "rows dL = 12" "cols dL = 1"
    and dL_get: "\<And>i. i < 12 \<Longrightarrow> get dL i 0 = (\<Sum>k<12. get T i k * get ?dG k 0)"
    using T by auto
  have dG: "\<And>k. k < 12 \<Longrightarrow> get ?dG k 0 = d ! k"
    using assms(2) by simp
  have "cols ?kL = rows dL" using dL by simp
  from multiply_Inr [OF this] obtain fL where fL: "multiply ?kL dL = Inr fL"
    and fL_get: "\<And>i. i < 12 \<Longrightarrow> get fL i 0 = (\<Sum>k<12. get ?kL i k * get dL k 0)"
    using dL by auto
  have fL_val: "get fL p 0 = localEndForces ?kL T d p" if "p < 12" for p
    using that by (simp add: fL_get dL_get dG localEndForces_def)
  have body: "(let x = real i / real n * el_length e; ratio = x / el_length e
               in \<lparr>fp_x = x,
                   fp_forces =
                     [get fL 0 0 * (1 - ratio) + get fL 6 0 * ratio,
                      get fL 1 0 * (1 - ratio) + get fL 7 0 * ratio,
                      get fL 2 0 * (1 - ratio) + get fL 8 0 * ratio,
                      get fL 3 0 * (1 - ratio) + get fL 9 0 * ratio,
                      get fL 4 0 * (1 - ratio) + get fL 10 0 * ratio,
                      get fL 5 0 * (1 - ratio) + get fL 11 0 * ratio]\<rparr>)
             = samplePoint e (localEndForces ?kL T d) n i" for i n
    unfolding samplePoint_def Let_def upt_6 by (simp add: fL_val)
  have "computeMemberForces e d loads n =
          Inr (map (samplePoint e (localEndForces ?kL T d) n) [0..<Suc n])" for loads n
  proof -
    obtain fer where fer: "fixedEndReactions e loads = Inr fer" "length fer = 12"
      using fixedEndReactions_Inr [OF assms(1)] by blast
    have "cols T = rows (transpose_m (fromArray [fer]))" using T fer by simp
    from multiply_Inr [OF this] obtain m where "multiply T (transpose_m (fromArray [fer])) = Inr m"
      by blast
    then show ?thesis
      unfolding computeMemberForces_def
      by (simp only: T dL fL fer bindE_Inr Let_def body [unfolded Let_def])
  qed
  then show ?thesis using that T by blast
qed

text \<open>
  Claim C1. For an element built by the constructor, a 12-entry displacement vector and
  \<open>numPoints \<ge> 1\<close>, \<open>computeMemberForces\<close> returns \<open>numPoints + 1\<close> samples, the
  \<open>i\<close>-th at \<open>x = (i / numPoints) * L\<close>; each of its six force components is the linear
  interpolation \<open>(1 - x / L) * f c + (x / L) * f (c + 6)\<close> of the local end forces
  \<open>f = K_local * (T * d)\<close>; and the samples are the same for every list of member loads.
\<close>

theorem computeMemberForces_interpolates:
  assumes "new_Member3DElement member iNode jNode material section = Inr e"
    and "length d = 12" and "1 \<le> numPoints"
  shows "\<exists>T samples.
           transformationMatrix e = Inr T
         \<and> computeMemberForces e d loads numPoints = Inr samples
         \<and> length samples = numPoints + 1
         \<and> (\<forall>i\<le>numPoints.
               fp_x (samples ! i) = real i / real numPoints * el_length e
             \<and> length (fp_forces (samples ! i)) = 6
             \<and> (\<forall>c<6. fp_forces (samples ! i) ! c =
                    (1 - fp_x (samples ! i) / el_length e)
                      * localEndForces (localStiffnessMatrix e) T d c
                  + fp_x (samples ! i) / el_length e
                      * localEndForces (localStiffnessMatrix e) T d (c + 6)))
         \<and> computeMemberForces e d loads' numPoints = Inr samples"
proof -
  have valid: "elementValid e"
    using assms(1) by (rule new_Member3DElement_valid)
  obtain T where T: "transformationMatrix e = Inr T"
    and cmf: "\<And>loads numPoints. computeMemberForces e d loads numPoints =
           Inr (map (samplePoint e (localEndForces (localStiffnessMatrix e) T d) numPoints)
                    [0..<Suc numPoints])"
    using computeMemberForces_eq [OF valid assms(2)] by blast
  let ?samples = "map (samplePoint e (localEndForces (localStiffnessMatrix e) T d) numPoints)
                    [0..<Suc numPoints]"
  have nth: "?samples ! i = samplePoint e (localEndForces (localStiffnessMatrix e) T d) numPoints i"
    if "i \<le> numPoints" for i
    using that nth_map_upt [of i "Suc numPoints" 0] by simp
  have pt: "fp_x (?samples ! i) = real i / real numPoints * el_length e
             \<and> length (fp_forces (?samples ! i)) = 6
             \<and> (\<forall>c<6. fp_forces (?samples ! i) ! c =
                    (1 - fp_x (?samples ! i) / el_length e)
                      * localEndForces (localStiffnessMatrix e) T d c
                  + fp_x (?samples ! i) / el_length e
                      * localEndForces (localStiffnessMatrix e) T d (c + 6))"
    if "i \<le> numPoints" for i
    unfolding nth [OF that] by (simp add: samplePoint_def mult.commute)
  show ?thesis
    using T cmf pt by (intro exI [of _ T] exI [of _ ?samples]) simp
qed

theorem computeMemberForces_interpolates_witness:
  "new_Member3DElement exMember exNodeI exNodeJ exMaterial exSection = Inr exElement
   \<and> length (replicate 12 (1::real)) = 12 \<and> (1::nat) \<le> 11 \<and> (3::nat) \<le> 11 \<and> (2::nat) < 6
   \<and> (\<exists>T samples.
          transformationMatrix exElement = Inr T
        \<and> computeMemberForces exElement (replicate 12 1) [] 11 = Inr samples
        \<and> length samples = 12
        \<and> fp_x (samples ! 3) = 3 / 11
        \<and> fp_forces (samples ! 3) ! 2 =
             (1 - fp_x (samples ! 3) / el_length exElement)
               * localEndForces (localStiffnessMatrix exElement) T (replicate 12 1) 2
           + fp_x (samples ! 3) / el_length exElement
               * localEndForces (localStiffnessMatrix exElement) T (replicate 12 1) (2 + 6)
        \<and> computeMemberForces exElement (replicate 12 1) [exLoad Point ''FY'' None] 11 = Inr samples)"
proof -
  have len: "length (replicate 12 (1::real)) = 12" by simp
  have n: "(1::nat) \<le> 11" by simp
  obtain T samples where
    "transformationMatrix exElement = Inr T"
    "computeMemberForces exElement (replicate 12 1) [] 11 = Inr samples"
    "length samples = 11 + 1"
    "\<forall>i\<le>11.
        fp_x (samples ! i) = real i / real (11::nat) * el_length exElement
      \<and> length (fp_forces (samples ! i)) = 6
      \<and> (\<forall>c<6. fp_forces (samples ! i) ! c =
             (1 - fp_x (samples ! i) / el_length exElement)
               * localEndForces (localStiffnessMatrix exElement) T (replicate 12 1) c
           + fp_x (samples ! i) / el_length exElement
               * localEndForces (localStiffnessMatrix exElement) T (replicate 12 1) (c + 6))"
    "computeMemberForces exElement (replicate 12 1) [exLoad Point ''FY'' None] 11 = Inr samples"
    using computeMemberForces_interpolates [OF ex_new len n, of "[]" "[exLoad Point ''FY'' None]"]
    by blast
  moreover from this(4) have
    "fp_x (samples ! 3) = real (3::nat) / real (11::nat) * el_length exElement
      \<and> (\<forall>c<6. fp_forces (samples ! 3) ! c =
             (1 - fp_x (samples ! 3) / el_length exElement)
               * localEndForces (localStiffnessMatrix exElement) T (replicate 12 1) c
           + fp_x (samples ! 3) / el_length exElement
               * localEndForces (localStiffnessMatrix exElement) T (replicate 12 1) (c + 6))"
    by simp
  ultimately show ?thesis
    using ex_new by (intro conjI exI [of _ T] exI [of _ samples]) (simp_all add: exElement_def)
qed

text \<open>
  Claim C10. A point load of the element whose normalized position is given as 0, or is
  omitted, is placed at mid-span: the position handed to \<open>addPointLoadFER\<close> is
  \<open>0.5 * L\<close>, so the fixed-end reactions are those of the same load at \<open>x = 0.5\<close>.
\<close>

theorem point_load_at_zero_is_midspan:
  assumes "ml_type load = Point" and "ml_member load = el_id e"
  shows "ferStep e (load\<lparr>ml_x := Some 0\<rparr>) fer =
           addPointLoadFER fer (toUpperCase (ml_direction load))
             (orDefault (ml_magnitude load) 0) (1 / 2 * el_length e) (el_length e)
       \<and> fixedEndReactions e (pre @ load\<lparr>ml_x := Some 0\<rparr> # post) =
           fixedEndReactions e (pre @ load\<lparr>ml_x := Some (1 / 2)\<rparr> # post)
       \<and> fixedEndReactions e (pre @ load\<lparr>ml_x := None\<rparr> # post) =
           fixedEndReactions e (pre @ load\<lparr>ml_x := Some (1 / 2)\<rparr> # post)"
proof -
  have "ferStep e (load\<lparr>ml_x := Some 0\<rparr>) fer =
           addPointLoadFER fer (toUpperCase (ml_direction load))
             (orDefault (ml_magnitude load) 0) (1 / 2 * el_length e) (el_length e)"
    using assms by (simp add: ferStep_def Let_def orDefault_def)
  then show ?thesis
    using assms(1) by (simp add: fixedEndReactions_def ferStep_Point_zero(1,2))
qed

theorem point_load_at_zero_is_midspan_witness:
  "ml_type (exLoad Point ''FY'' None) = Point
   \<and> ml_member (exLoad Point ''FY'' None) = el_id exElement
   \<and> fixedEndReactions exElement [exLoad Point ''FY'' (Some 0)] =
       fixedEndReactions exElement [exLoad Point ''FY'' (Some (1 / 2))]
   \<and> fixedEndReactions exElement [exLoad Point ''FY'' (Some 0)] =
       Inr [0, 1 / 2, 0, 0, 0, 1 / 8, 0, 1 / 2, 0, 0, 0, - 1 / 8]"
  using point_load_at_zero_is_midspan [of "exLoad Point ''FY'' None" exElement "[]" "[]" "[]"]
    ex_fer_point_zero
  by (simp add: exLoad_def exElement_def)

text \<open>
  Claim C3 (the code at the failing input). \<open>fixedEndReactions\<close> dispatches on the load
  types \<open>distributed\<close> and \<open>point\<close> only: a load of type \<open>moment\<close> leaves the force
  vector unchanged, so the unit moment about \<open>MZ\<close> at mid-span of the unit member gives
  no fixed-end reaction at all, while the same load entered with type \<open>point\<close> gives the
  moment fixed-end terms \<open>6Pab/L^3\<close>, \<open>Pb(2a-b)/L^2\<close>, \<open>Pa(2b-a)/L^2\<close>.
\<close>

theorem moment_load_ignored:
  "fixedEndReactions exElement [exLoad Moment ''MZ'' (Some (1 / 2))] = Inr (replicate 12 0)
   \<and> fixedEndReactions exElement [exLoad Point ''MZ'' (Some (1 / 2))] =
       Inr [0, 3 / 2, 0, 0, 0, 1 / 4, 0, - 3 / 2, 0, 0, 0, 1 / 4]"
proof
  show "fixedEndReactions exElement [exLoad Moment ''MZ'' (Some (1 / 2))] = Inr (replicate 12 0)"
    apply (simp add: fixedEndReactions_def ex_transformation)
    apply (simp add: ferStep_def exLoad_def exElement_def Let_def numeral_eq_Suc)
    apply (simp add: multiply_def transpose_m_def fromArray_def identity12_def upt_12 get_def
        sum_loop_def Let_def)
    done
  show "fixedEndReactions exElement [exLoad Point ''MZ'' (Some (1 / 2))] =
       Inr [0, 3 / 2, 0, 0, 0, 1 / 4, 0, - 3 / 2, 0, 0, 0, 1 / 4]"
    apply (simp add: fixedEndReactions_def ex_transformation)
    apply (simp add: ferStep_def exLoad_def exElement_def toUpperCase_def upperChar_def
        orDefault_def addPointLoadFER_def addTo_def Let_def numeral_eq_Suc)
    apply (simp add: multiply_def transpose_m_def fromArray_def identity12_def upt_12 get_def
        sum_loop_def Let_def)
    done
qed

section \<open>Facts about the analyzer\<close>

lemma foldE_append: "foldE f (xs @ ys) s = bindE (foldE f xs s) (foldE f ys)"
  by (induction xs arbitrary: s) (simp_all split: sum.splits)

lemma buildMap_Some:
  "buildMap key xs k = Some x \<Longrightarrow> x \<in> set xs \<and> key x = k"
proof -
  have "fold (\<lambda>x m. m(key x \<mapsto> x)) xs m0 k = Some x \<Longrightarrow> (x \<in> set xs \<and> key x = k) \<or> m0 k = Some x" for m0
    by (induction xs arbitrary: m0) (fastforce split: if_splits)+
  from this [of Map.empty] show "buildMap key xs k = Some x \<Longrightarrow> x \<in> set xs \<and> key x = k"
    by (simp add: buildMap_def)
qed

text \<open>A member that resolves and is too short makes its step of the loop throw.\<close>

lemma createElement_zero_length:
  assumes "nm (mem_iNode m) = Some ni" and "nm (mem_jNode m) = Some nj"
    and "mm (mem_material m) = Some mat" and "sm (mem_section m) = Some sec"
    and "nodeDistance ni nj < 1 / 10 ^ 10"
  shows "createElement nm mm sm m els = Inl (MemberZeroLength (mem_id m))"
  using assms by (simp add: createElement_def new_Member3DElement_def nodeDistance_def Let_def)

lemma createElement_error:
  "createElement nm mm sm m els = Inl e \<Longrightarrow> e = MemberZeroLength (mem_id m)"
  by (auto simp: createElement_def new_Member3DElement_def Let_def bindE_def
      split: option.splits if_splits)

lemma createElements_zero_length:
  assumes "m \<in> set ms"
    and "\<And>els. createElement nm mm sm m els = Inl (MemberZeroLength (mem_id m))"
  shows "\<exists>m'\<in>set ms. foldE (createElement nm mm sm) ms els = Inl (MemberZeroLength (mem_id m'))"
  using assms(1)
proof (induction ms arbitrary: els)
  case Nil
  then show ?case by simp
next
  case (Cons a ms)
  show ?case
  proof (cases "createElement nm mm sm a els")
    case (Inl e)
    then show ?thesis using createElement_error [OF Inl] by simp
  next
    case (Inr els')
    then have "a \<noteq> m" using assms(2) [of els] by auto
    then have "m \<in> set ms" using Cons.prems by simp
    from Cons.IH [OF this, of els'] show ?thesis using Inr by simp
  qed
qed

text \<open>
  Claim C4, as stated, at a model with one member between two coincident nodes: the
  element constructor's throw leaves \<open>new Analyzer(model)\<close>; no analysis result, failed
  or not, is produced.
\<close>

theorem zero_length_escapes_counterexample:
  "analyzeModel zeroLengthModel ''C1'' = Inl (MemberZeroLength ''M1'')
   \<and> \<not> (\<exists>r. analyzeModel zeroLengthModel ''C1'' = Inr r)"
  by (simp add: analyzeModel_def new_Analyzer_def zeroLengthModel_def buildMap_def
      createElement_def new_Member3DElement_def exMember_def exNodeI_def exMaterial_def
      exSection_def Let_def)

text \<open>
  Claim C4, amended. For every model with a member whose node, material and section
  references resolve and whose end nodes are less than \<open>1e-10\<close> apart, the Analyzer
  constructor throws \<open>Member <id> has zero length\<close> for a member of the model: the
  exception reaches the caller of the constructor, and \<open>analyze\<close> is never reached.
\<close>

theorem zero_length_member_throws_in_constructor:
  assumes "m \<in> set (members model)"
    and "buildMap node_id (nodes model) (mem_iNode m) = Some ni"
    and "buildMap node_id (nodes model) (mem_jNode m) = Some nj"
    and "buildMap mat_id (materials model) (mem_material m) = Some mat"
    and "buildMap sec_id (sections model) (mem_section m) = Some sec"
    and "nodeDistance ni nj < 1 / 10 ^ 10"
  shows "\<exists>m'\<in>set (members model).
           new_Analyzer model = Inl (MemberZeroLength (mem_id m'))
         \<and> analyzeModel model combinationName = Inl (MemberZeroLength (mem_id m'))"
proof -
  have "createElement (buildMap node_id (nodes model)) (buildMap mat_id (materials model))
          (buildMap sec_id (sections model)) m els = Inl (MemberZeroLength (mem_id m))" for els
    using assms(2-6) by (rule createElement_zero_length)
  from createElements_zero_length [OF assms(1), of "buildMap node_id (nodes model)"
      "buildMap mat_id (materials model)" "buildMap sec_id (sections model)" "[]", OF this]
  obtain m' where "m' \<in> set (members model)"
    and "foldE (createElement (buildMap node_id (nodes model)) (buildMap mat_id (materials model))
           (buildMap sec_id (sections model))) (members model) [] = Inl (MemberZeroLength (mem_id m'))"
    by blast
  then show ?thesis
    by (auto simp: new_Analyzer_def analyzeModel_def Let_def)
qed

theorem zero_length_member_throws_in_constructor_witness:
  "exMember \<in> set (members zeroLengthModel)
   \<and> buildMap node_id (nodes zeroLengthModel) (mem_iNode exMember) = Some exNodeI
   \<and> buildMap node_id (nodes zeroLengthModel) (mem_jNode exMember) = Some (exNodeI\<lparr>node_id := ''N2''\<rparr>)
   \<and> buildMap mat_id (materials zeroLengthModel) (mem_material exMember) = Some exMaterial
   \<and> buildMap sec_id (sections zeroLengthModel) (mem_section exMember) = Some exSection
   \<and> nodeDistance exNodeI (exNodeI\<lparr>node_id := ''N2''\<rparr>) < 1 / 10 ^ 10
   \<and> new_Analyzer zeroLengthModel = Inl (MemberZeroLength ''M1'')"
proof -
  have 1: "exMember \<in> set (members zeroLengthModel)" by (simp add: zeroLengthModel_def)
  have 2: "buildMap node_id (nodes zeroLengthModel) (mem_iNode exMember) = Some exNodeI"
    by (simp add: zeroLengthModel_def buildMap_def exMember_def exNodeI_def)
  have 3: "buildMap node_id (nodes zeroLengthModel) (mem_jNode exMember) = Some (exNodeI\<lparr>node_id := ''N2''\<rparr>)"
    by (simp add: zeroLengthModel_def buildMap_def exMember_def exNodeI_def)
  have 4: "buildMap mat_id (materials zeroLengthModel) (mem_material exMember) = Some exMaterial"
    by (simp add: zeroLengthModel_def buildMap_def exMember_def exMaterial_def)
  have 5: "buildMap sec_id (sections zeroLengthModel) (mem_section exMember) = Some exSection"
    by (simp add: zeroLengthModel_def buildMap_def exMember_def exSection_def)
  have 6: "nodeDistance exNodeI (exNodeI\<lparr>node_id := ''N2''\<rparr>) < 1 / 10 ^ 10"
    by (simp add: nodeDistance_def)
  from zero_length_member_throws_in_constructor [OF 1 2 3 4 5 6, of "''C1''"]
  have "new_Analyzer zeroLengthModel = Inl (MemberZeroLength ''M1'')"
    by (simp add: zeroLengthModel_def exMember_def)
  with 1 2 3 4 5 6 show ?thesis by simp
qed

lemma buildIndexMap_member:
  assumes "n \<in> set ns"
  shows "\<exists>i. buildIndexMap ns (node_id n) = Some i \<and> i < length ns"
proof -
  define g where "g k = fold (\<lambda>index m. m(node_id (ns ! index) \<mapsto> index)) [0..<k] Map.empty" for k
  have g0: "g 0 = Map.empty" by (simp add: g_def)
  have gS: "g (Suc k) = (g k)(node_id (ns ! k) \<mapsto> k)" for k by (simp add: g_def)
  have some: "g k key = Some i \<Longrightarrow> i < k" for k key i
    by (induction k) (auto simp: g0 gS less_Suc_eq split: if_splits)
  have dom: "j < k \<Longrightarrow> \<exists>i. g k (node_id (ns ! j)) = Some i" for j k
    by (induction k) (auto simp: g0 gS less_Suc_eq)
  obtain j where j: "j < length ns" "ns ! j = n"
    using assms by (auto simp: in_set_conv_nth)
  from dom [OF j(1)] obtain i where "g (length ns) (node_id n) = Some i"
    using j(2) by auto
  with some [of "length ns" "node_id n" i] show ?thesis
    by (auto simp: buildIndexMap_def g_def)
qed

lemma createElement_Inr:
  assumes "createElement nm mm sm m els = Inr els'"
  shows "els' = els \<or> (\<exists>e ki kj. els' = els @ [e] \<and> elementValid e
            \<and> nm ki = Some (el_iNode e) \<and> nm kj = Some (el_jNode e))"
proof (cases "\<exists>ni nj mat sec. nm (mem_iNode m) = Some ni \<and> nm (mem_jNode m) = Some nj
                \<and> mm (mem_material m) = Some mat \<and> sm (mem_section m) = Some sec")
  case True
  then obtain ni nj mat sec where r: "nm (mem_iNode m) = Some ni" "nm (mem_jNode m) = Some nj"
    "mm (mem_material m) = Some mat" "sm (mem_section m) = Some sec" by blast
  with assms obtain e where e: "new_Member3DElement m ni nj mat sec = Inr e" "els' = els @ [e]"
    by (auto simp: createElement_def bindE_eq_Inr)
  have "el_iNode e = ni" "el_jNode e = nj"
    using e(1) by (auto simp: new_Member3DElement_def Let_def split: if_splits)
  with r e new_Member3DElement_valid [OF e(1)] show ?thesis by auto
next
  case False
  with assms have "els' = els"
    by (auto simp: createElement_def split: option.splits)
  then show ?thesis by simp
qed

lemma createElements_Inr:
  assumes "foldE (createElement nm mm sm) ms els = Inr els'"
    and "\<forall>e\<in>set els. elementValid e \<and> (\<exists>ki kj. nm ki = Some (el_iNode e) \<and> nm kj = Some (el_jNode e))"
  shows "\<forall>e\<in>set els'. elementValid e \<and> (\<exists>ki kj. nm ki = Some (el_iNode e) \<and> nm kj = Some (el_jNode e))"
  using assms
proof (induction ms arbitrary: els)
  case Nil
  then show ?case by simp
next
  case (Cons m ms)
  from Cons.prems(1) obtain els1 where 1: "createElement nm mm sm m els = Inr els1"
    and 2: "foldE (createElement nm mm sm) ms els1 = Inr els'"
    by (auto split: sum.splits)
  from createElement_Inr [OF 1] Cons.prems(2)
  have "\<forall>e\<in>set els1. elementValid e \<and> (\<exists>ki kj. nm ki = Some (el_iNode e) \<and> nm kj = Some (el_jNode e))"
    by auto
  from Cons.IH [OF 2 this] show ?case .
qed

lemma new_Analyzer_fields:
  assumes "new_Analyzer model = Inr an"
  obtains els free fixed where
    "foldE (createElement (buildMap node_id (nodes model)) (buildMap mat_id (materials model))
      (buildMap sec_id (sections model))) (members model) [] = Inr els"
    and "classifyDOF (nodes model) (buildMap sup_node (supports model)) = (free, fixed)"
    and "an = \<lparr>an_model = model, nodeMap = buildMap node_id (nodes model),
               nodeIndexMap = buildIndexMap (nodes model),
               materialMap = buildMap mat_id (materials model),
               sectionMap = buildMap sec_id (sections model),
               supportMap = buildMap sup_node (supports model), elements = els,
               numDOF = length (nodes model) * 6, freeDOF = free, fixedDOF = fixed\<rparr>"
proof -
  obtain free fixed where cd:
    "classifyDOF (nodes model) (buildMap sup_node (supports model)) = (free, fixed)"
    by (cases "classifyDOF (nodes model) (buildMap sup_node (supports model))")
  with assms that show ?thesis
    by (auto simp: new_Analyzer_def Let_def bindE_eq_Inr)
qed

lemma new_Analyzer_valid:
  assumes "new_Analyzer model = Inr an"
  shows "analyzerValid an" and "an_model an = model"
proof -
  let ?nm = "buildMap node_id (nodes model)"
  from new_Analyzer_fields [OF assms] obtain els free fixed where
    els: "foldE (createElement ?nm (buildMap mat_id (materials model))
      (buildMap sec_id (sections model))) (members model) [] = Inr els"
    and an: "an = \<lparr>an_model = model, nodeMap = ?nm,
               nodeIndexMap = buildIndexMap (nodes model),
               materialMap = buildMap mat_id (materials model),
               sectionMap = buildMap sec_id (sections model),
               supportMap = buildMap sup_node (supports model), elements = els,
               numDOF = length (nodes model) * 6, freeDOF = free, fixedDOF = fixed\<rparr>"
    by blast
  from an show m: "an_model an = model" by simp
  from an have f: "elements an = els" "nodeIndexMap an = buildIndexMap (nodes model)"
    "numDOF an = length (nodes model) * 6"
    by simp_all
  have 1: "\<forall>e\<in>set els. elementValid e \<and> (\<exists>ki kj. ?nm ki = Some (el_iNode e) \<and> ?nm kj = Some (el_jNode e))"
    using createElements_Inr [OF els] by simp
  show "analyzerValid an"
    unfolding analyzerValid_def f m
  proof (intro conjI ballI)
    fix e assume e: "e \<in> set els"
    with 1 show "elementValid e" by blast
    from 1 e obtain ki kj where k: "?nm ki = Some (el_iNode e)" "?nm kj = Some (el_jNode e)"
      by blast
    have "el_iNode e \<in> set (nodes model)" "el_jNode e \<in> set (nodes model)"
      using buildMap_Some [OF k(1)] buildMap_Some [OF k(2)] by simp_all
    from buildIndexMap_member [OF this(1)] buildIndexMap_member [OF this(2)]
    show "\<exists>i j. buildIndexMap (nodes model) (node_id (el_iNode e)) = Some i \<and> i < length (nodes model)
             \<and> buildIndexMap (nodes model) (node_id (el_jNode e)) = Some j \<and> j < length (nodes model)"
      by blast
  qed simp
qed

lemma ex_new_Analyzer: "new_Analyzer exModel = Inr exAnalyzer"
proof -
  have 1: "foldE (createElement (buildMap node_id (nodes exModel)) (buildMap mat_id (materials exModel))
      (buildMap sec_id (sections exModel))) (members exModel) [] = Inr [exElement]"
    using ex_new
    by (simp add: exModel_def createElement_def buildMap_def exMember_def exNodeI_def exNodeJ_def
        exMaterial_def exSection_def)
  have 2: "classifyDOF (nodes exModel) (buildMap sup_node (supports exModel)) =
        ([6, 7, 8, 9, 10, 11], [0, 1, 2, 3, 4, 5])"
    by (simp add: classifyDOF_def exModel_def buildMap_def exNodeI_def exNodeJ_def upt_6
        constraintsOf_def Let_def numeral_eq_Suc)
  show ?thesis
    unfolding new_Analyzer_def Let_def 1 2 by (simp add: exAnalyzer_def exModel_def)
qed

lemma sum_list_upt_sum: "sum_list (map f [0..<n]) = (\<Sum>i<n. f i)"
  by (simp add: interv_sum_list_conv_sum_set_nat atLeast0LessThan)

lemma fold_add_row:
  assumes "wf_matrix K" and "r < rows K" and "\<forall>j\<in>set js. g j < cols K"
  shows "wf_matrix (fold (\<lambda>j K. add_m K r (g j) (f j)) js K)
       \<and> rows (fold (\<lambda>j K. add_m K r (g j) (f j)) js K) = rows K
       \<and> cols (fold (\<lambda>j K. add_m K r (g j) (f j)) js K) = cols K
       \<and> (\<forall>p q. get (fold (\<lambda>j K. add_m K r (g j) (f j)) js K) p q =
                  get K p q + sum_list (map (\<lambda>j. if p = r \<and> q = g j then f j else 0) js))"
  using assms
proof (induction js arbitrary: K)
  case Nil
  then show ?case by simp
next
  case (Cons j js)
  let ?K = "add_m K r (g j) (f j)"
  have "wf_matrix ?K" "r < rows ?K" "\<forall>j\<in>set js. g j < cols ?K"
    using Cons.prems by simp_all
  from Cons.IH [OF this] show ?case
    using Cons.prems by (auto simp: get_add_m_wf)
qed

lemma fold_add_rows:
  assumes "wf_matrix K" and "\<forall>i\<in>set is. h i < rows K" and "\<forall>j\<in>set js. g j < cols K"
  shows "wf_matrix (fold (\<lambda>i K. fold (\<lambda>j K. add_m K (h i) (g j) (f i j)) js K) is K)
       \<and> rows (fold (\<lambda>i K. fold (\<lambda>j K. add_m K (h i) (g j) (f i j)) js K) is K) = rows K
       \<and> cols (fold (\<lambda>i K. fold (\<lambda>j K. add_m K (h i) (g j) (f i j)) js K) is K) = cols K
       \<and> (\<forall>p q. get (fold (\<lambda>i K. fold (\<lambda>j K. add_m K (h i) (g j) (f i j)) js K) is K) p q =
                  get K p q
                  + sum_list (map (\<lambda>i. sum_list (map (\<lambda>j. if p = h i \<and> q = g j then f i j else 0) js)) is))"
  using assms
proof (induction "is" arbitrary: K)
  case Nil
  then show ?case by simp
next
  case (Cons i "is")
  let ?K = "fold (\<lambda>j K. add_m K (h i) (g j) (f i j)) js K"
  have row: "wf_matrix ?K \<and> rows ?K = rows K \<and> cols ?K = cols K
     \<and> (\<forall>p q. get ?K p q = get K p q + sum_list (map (\<lambda>j. if p = h i \<and> q = g j then f i j else 0) js))"
    using fold_add_row [of K "h i" js g "f i"] Cons.prems by simp
  then have "wf_matrix ?K" "\<forall>i\<in>set is. h i < rows ?K" "\<forall>j\<in>set js. g j < cols ?K"
    using Cons.prems by simp_all
  from Cons.IH [OF this] row show ?case
    by (simp add: add.assoc)
qed

lemma scatterAdd_get:
  assumes "wf_matrix K" and "rows K = n" and "cols K = n" and "\<forall>i<12. dofMap ! i < n"
  shows "wf_matrix (scatterAdd kGlobal dofMap K)"
    and "rows (scatterAdd kGlobal dofMap K) = n"
    and "cols (scatterAdd kGlobal dofMap K) = n"
    and "get (scatterAdd kGlobal dofMap K) p q =
           get K p q + (\<Sum>i<12. \<Sum>j<12. if p = dofMap ! i \<and> q = dofMap ! j then get kGlobal i j else 0)"
proof -
  have "\<forall>i\<in>set [0..<12]. dofMap ! i < rows K" "\<forall>j\<in>set [0..<12]. dofMap ! j < cols K"
    using assms by simp_all
  from fold_add_rows [OF assms(1) this, of "get kGlobal"]
  show "wf_matrix (scatterAdd kGlobal dofMap K)"
    and "rows (scatterAdd kGlobal dofMap K) = n"
    and "cols (scatterAdd kGlobal dofMap K) = n"
    and "get (scatterAdd kGlobal dofMap K) p q =
           get K p q + (\<Sum>i<12. \<Sum>j<12. if p = dofMap ! i \<and> q = dofMap ! j then get kGlobal i j else 0)"
    using assms(2,3) by (simp_all add: scatterAdd_def sum_list_upt_sum)
qed

lemma localStiffnessMatrix_pattern:
  "\<exists>EA_L GJ_L k_y1 k_y2 k_y3 k_y4 k_z1 k_z2 k_z3 k_z4.
     data (localStiffnessMatrix e) = stiffnessPattern EA_L GJ_L k_y1 k_y2 k_y3 k_y4 k_z1 k_z2 k_z3 k_z4"
  unfolding localStiffnessMatrix_data Let_def stiffnessPattern_def by blast

lemma stiffnessPattern_symmetric:
  "\<forall>p<12. \<forall>q<12. stiffnessPattern a b c d e f g h i j ! p ! q = stiffnessPattern a b c d e f g h i j ! q ! p"
  unfolding all_less_12 by (simp add: stiffnessPattern_def)

lemma stiffnessPattern_translation:
  "\<forall>q<12. stiffnessPattern a b c d e f g h i j ! 0 ! q + stiffnessPattern a b c d e f g h i j ! 6 ! q = 0"
  "\<forall>q<12. stiffnessPattern a b c d e f g h i j ! 1 ! q + stiffnessPattern a b c d e f g h i j ! 7 ! q = 0"
  "\<forall>q<12. stiffnessPattern a b c d e f g h i j ! 2 ! q + stiffnessPattern a b c d e f g h i j ! 8 ! q = 0"
  unfolding all_less_12 by (simp_all add: stiffnessPattern_def)

lemma localStiffness_symmetric:
  assumes "p < 12" and "q < 12"
  shows "get (localStiffnessMatrix e) p q = get (localStiffnessMatrix e) q p"
  using localStiffnessMatrix_pattern [of e] stiffnessPattern_symmetric assms
  by (auto simp: get_def)

lemma localStiffness_translation:
  assumes "p < 3" and "q < 12"
  shows "get (localStiffnessMatrix e) p q + get (localStiffnessMatrix e) (p + 6) q = 0"
proof -
  from assms(1) have "p = 0 \<or> p = 1 \<or> p = 2" by arith
  then show ?thesis
    using localStiffnessMatrix_pattern [of e] stiffnessPattern_translation assms(2)
    by (auto simp: get_def)
qed

lemma globalStiffnessMatrix_get:
  assumes "transformationMatrix e = Inr T" and "rows T = 12" and "cols T = 12"
  shows "\<exists>kG. globalStiffnessMatrix e = Inr kG \<and> rows kG = 12 \<and> cols kG = 12 \<and>
           (\<forall>a<12. \<forall>b<12. get kG a b =
              (\<Sum>q<12. (\<Sum>p<12. get T p a * get (localStiffnessMatrix e) p q) * get T q b))"
proof -
  let ?kL = "localStiffnessMatrix e"
  have "cols (transpose_m T) = rows ?kL" using assms by simp
  from multiply_Inr [OF this] obtain TtK where TtK: "multiply (transpose_m T) ?kL = Inr TtK"
    "rows TtK = 12" "cols TtK = 12"
    and TtK_get: "\<And>a q. a < 12 \<Longrightarrow> q < 12 \<Longrightarrow>
        get TtK a q = (\<Sum>p<12. get (transpose_m T) a p * get ?kL p q)"
    using assms by auto
  have "cols TtK = rows T" using assms TtK by simp
  from multiply_Inr [OF this] obtain kG where kG: "multiply TtK T = Inr kG"
    "rows kG = 12" "cols kG = 12"
    and kG_get: "\<And>a b. a < 12 \<Longrightarrow> b < 12 \<Longrightarrow> get kG a b = (\<Sum>q<12. get TtK a q * get T q b)"
    using assms TtK by auto
  have "get kG a b = (\<Sum>q<12. (\<Sum>p<12. get T p a * get ?kL p q) * get T q b)"
    if "a < 12" "b < 12" for a b
    using that assms by (simp add: kG_get TtK_get)
  moreover have "globalStiffnessMatrix e = Inr kG"
    by (simp add: globalStiffnessMatrix_def assms TtK kG)
  ultimately show ?thesis using kG by simp
qed

lemma globalStiffness_symmetric:
  assumes "globalStiffnessMatrix e = Inr kG" and "elementValid e" and "a < 12" and "b < 12"
  shows "get kG a b = get kG b a"
proof -
  let ?kL = "localStiffnessMatrix e"
  obtain T and R :: Matrix where T: "transformationMatrix e = Inr T" "rows T = 12" "cols T = 12"
    using transformationMatrix_Inr [OF assms(2)] by blast
  from globalStiffnessMatrix_get [OF T] assms(1)
  have kG: "\<forall>a<12. \<forall>b<12. get kG a b =
              (\<Sum>q<12. (\<Sum>p<12. get T p a * get ?kL p q) * get T q b)"
    by simp
  have "get kG b a = (\<Sum>q<12. \<Sum>p<12. get T p b * get ?kL p q * get T q a)"
    using assms(3,4) kG by (simp add: sum_distrib_right)
  also have "\<dots> = (\<Sum>p<12. \<Sum>q<12. get T p b * get ?kL p q * get T q a)"
    by (rule sum.swap)
  also have "\<dots> = (\<Sum>q<12. \<Sum>p<12. get T p a * get ?kL p q * get T q b)"
  proof (intro sum.cong refl)
    fix x y :: nat
    assume "x \<in> {..<12}" and "y \<in> {..<12}"
    then have "get ?kL x y = get ?kL y x"
      using localStiffness_symmetric [of x y e] by simp
    then show "get T x b * get ?kL x y * get T y a = get T y a * get ?kL y x * get T x b"
      by (simp add: mult_ac)
  qed
  also have "\<dots> = get kG a b"
    using assms(3,4) kG by (simp add: sum_distrib_right)
  finally show ?thesis by simp
qed

lemma foldE_invariant:
  assumes "P s" and "\<And>x s. x \<in> set xs \<Longrightarrow> P s \<Longrightarrow> \<exists>s'. f x s = Inr s' \<and> P s'"
  shows "\<exists>s'. foldE f xs s = Inr s' \<and> P s'"
  using assms
proof (induction xs arbitrary: s)
  case Nil
  then show ?case by simp
next
  case (Cons x xs)
  from Cons.prems(2) [of x s] Cons.prems(1) obtain s1 where s1: "f x s = Inr s1" "P s1"
    by auto
  from Cons.IH [OF s1(2)] Cons.prems(2) obtain s' where "foldE f xs s1 = Inr s'" "P s'"
    by auto
  with s1 show ?case by simp
qed

lemma dofMapOf_Inr:
  assumes "analyzerValid an" and "e \<in> set (elements an)"
  shows "\<exists>i j. i < length (nodes (an_model an)) \<and> j < length (nodes (an_model an)) \<and>
           nodeIndexMap an (node_id (el_iNode e)) = Some i \<and>
           nodeIndexMap an (node_id (el_jNode e)) = Some j \<and>
           dofMapOf an e = Inr [i * 6, i * 6 + 1, i * 6 + 2, i * 6 + 3, i * 6 + 4, i * 6 + 5,
                                j * 6, j * 6 + 1, j * 6 + 2, j * 6 + 3, j * 6 + 4, j * 6 + 5]"
  using assms by (fastforce simp: analyzerValid_def dofMapOf_def)

lemma dofMap_bound:
  assumes "(i::nat) < n" and "(j::nat) < n"
  shows "\<forall>k<12. [i * 6, i * 6 + 1, i * 6 + 2, i * 6 + 3, i * 6 + 4, i * 6 + 5,
                  j * 6, j * 6 + 1, j * 6 + 2, j * 6 + 3, j * 6 + 4, j * 6 + 5] ! k < n * 6"
  unfolding all_less_12 using assms by simp

lemma assembleElement_symmetric:
  assumes "analyzerValid an" and "e \<in> set (elements an)" and "symmetricOfSize (numDOF an) K"
  shows "\<exists>K'. assembleElement an e K = Inr K' \<and> symmetricOfSize (numDOF an) K'"
proof -
  have valid: "elementValid e"
    using assms(1,2) by (simp add: analyzerValid_def)
  obtain T and R :: Matrix where T: "transformationMatrix e = Inr T" "rows T = 12" "cols T = 12"
    using transformationMatrix_Inr [OF valid] by blast
  from globalStiffnessMatrix_get [OF T] obtain kG where kG: "globalStiffnessMatrix e = Inr kG"
    by blast
  have kG_sym: "get kG a b = get kG b a" if "a < 12" "b < 12" for a b
    using globalStiffness_symmetric [OF kG valid that] .
  from dofMapOf_Inr [OF assms(1,2)] obtain i j where ij: "i < length (nodes (an_model an))"
    "j < length (nodes (an_model an))"
    and dm: "dofMapOf an e = Inr [i * 6, i * 6 + 1, i * 6 + 2, i * 6 + 3, i * 6 + 4, i * 6 + 5,
                                j * 6, j * 6 + 1, j * 6 + 2, j * 6 + 3, j * 6 + 4, j * 6 + 5]"
    by blast
  let ?dm = "[i * 6, i * 6 + 1, i * 6 + 2, i * 6 + 3, i * 6 + 4, i * 6 + 5,
             j * 6, j * 6 + 1, j * 6 + 2, j * 6 + 3, j * 6 + 4, j * 6 + 5]"
  have n: "numDOF an = length (nodes (an_model an)) * 6"
    using assms(1) by (simp add: analyzerValid_def)
  have bound: "\<forall>k<12. ?dm ! k < numDOF an"
    unfolding n by (rule dofMap_bound [OF ij])
  have K: "wf_matrix K" "rows K = numDOF an" "cols K = numDOF an"
    and K_sym: "\<And>p q. p < numDOF an \<Longrightarrow> q < numDOF an \<Longrightarrow> get K p q = get K q p"
    using assms(3) by (simp_all add: symmetricOfSize_def)
  let ?K' = "scatterAdd kG ?dm K"
  note sc = scatterAdd_get [OF K bound, of kG]
  have "(\<Sum>a<12. \<Sum>b<12. if q = ?dm ! a \<and> p = ?dm ! b then get kG a b else 0)
      = (\<Sum>b<12. \<Sum>a<12. if q = ?dm ! a \<and> p = ?dm ! b then get kG a b else 0)" for p q
    by (rule sum.swap)
  also have "\<dots> p q = (\<Sum>a<12. \<Sum>b<12. if p = ?dm ! a \<and> q = ?dm ! b then get kG a b else 0)" for p q
    by (intro sum.cong refl) (auto simp: kG_sym)
  finally have S: "(\<Sum>a<12. \<Sum>b<12. if q = ?dm ! a \<and> p = ?dm ! b then get kG a b else 0)
      = (\<Sum>a<12. \<Sum>b<12. if p = ?dm ! a \<and> q = ?dm ! b then get kG a b else 0)" for p q .
  have "get ?K' p q = get ?K' q p" if "p < numDOF an" "q < numDOF an" for p q
    unfolding sc(4) using K_sym [OF that] S [of q p] by simp
  then have "symmetricOfSize (numDOF an) ?K'"
    using sc(1-3) by (simp add: symmetricOfSize_def)
  moreover have "assembleElement an e K = Inr ?K'"
    by (simp add: assembleElement_def kG dm)
  ultimately show ?thesis by blast
qed

lemma assemble_symmetric:
  assumes "analyzerValid an"
  shows "\<exists>K. assembleGlobalStiffnessMatrix an = Inr K \<and> symmetricOfSize (numDOF an) K"
  unfolding assembleGlobalStiffnessMatrix_def
proof (rule foldE_invariant)
  show "symmetricOfSize (numDOF an) (zeros (numDOF an) (numDOF an))"
    by (simp add: symmetricOfSize_def)
next
  fix e K
  assume "e \<in> set (elements an)" and "symmetricOfSize (numDOF an) K"
  then show "\<exists>K'. assembleElement an e K = Inr K' \<and> symmetricOfSize (numDOF an) K'"
    using assembleElement_symmetric [OF assms] by blast
qed

text \<open>
  Claim C8. For every analyzer built from a model, \<open>assembleGlobalStiffnessMatrix\<close>
  returns a matrix \<open>K\<close> of size \<open>numDOF\<close> with \<open>K[i][j] = K[j][i]\<close> for all index pairs.
\<close>

theorem global_stiffness_symmetric:
  assumes "new_Analyzer model = Inr an"
  shows "\<exists>K. assembleGlobalStiffnessMatrix an = Inr K \<and> rows K = numDOF an \<and> cols K = numDOF an
           \<and> (\<forall>i<numDOF an. \<forall>j<numDOF an. get K i j = get K j i)"
  using assemble_symmetric [OF new_Analyzer_valid(1) [OF assms]]
  by (auto simp: symmetricOfSize_def)

theorem global_stiffness_symmetric_witness:
  "new_Analyzer exModel = Inr exAnalyzer \<and> (1::nat) < numDOF exAnalyzer \<and> (7::nat) < numDOF exAnalyzer
   \<and> (\<exists>K. assembleGlobalStiffnessMatrix exAnalyzer = Inr K \<and> rows K = 12 \<and> get K 1 7 = get K 7 1)"
  using global_stiffness_symmetric [OF ex_new_Analyzer] ex_new_Analyzer
  by (auto simp: exAnalyzer_def)

lemma sum_12:
  "(\<Sum>a<12. f a) = f (0::nat) + f 1 + f 2 + f 3 + f 4 + f 5 + f 6 + f 7 + f 8 + f 9 + f 10 + (f 11 :: real)"
  by (simp add: numeral_eq_Suc)

lemma less_3_cases: "c < 3 \<Longrightarrow> c = 0 \<or> c = 1 \<or> c = (2::nat)"
  by arith

lemma transformation_translation_column:
  assumes "data T = blockDiagonal R" and "c < 3"
  shows "(\<Sum>p<12. (get T p c + get T p (c + 6)) * f p)
           = get R 0 c * (f 0 + f 6) + get R 1 c * (f 1 + f 7) + get R 2 c * (f 2 + f 8)"
  using less_3_cases [OF assms(2)]
  by (auto simp: sum_12 get_def assms(1) blockDiagonal_def algebra_simps)

lemma globalStiffness_translation:
  assumes "globalStiffnessMatrix e = Inr kG" and "elementValid e" and "c < 3" and "b < 12"
  shows "get kG c b + get kG (c + 6) b = 0"
proof -
  let ?kL = "localStiffnessMatrix e"
  obtain T R where T: "transformationMatrix e = Inr T" "rows T = 12" "cols T = 12"
    and TR: "data T = blockDiagonal R"
    using transformationMatrix_Inr [OF assms(2)] by blast
  from globalStiffnessMatrix_get [OF T] assms(1)
  have kG: "\<forall>a<12. \<forall>b<12. get kG a b =
              (\<Sum>q<12. (\<Sum>p<12. get T p a * get ?kL p q) * get T q b)"
    by simp
  have c: "c < 12" "c + 6 < 12" using assms(3) by simp_all
  have inner: "(\<Sum>p<12. (get T p c + get T p (c + 6)) * get ?kL p q) = 0" if "q < 12" for q
    unfolding transformation_translation_column [OF TR assms(3)]
    using localStiffness_translation [of 0 q e] localStiffness_translation [of 1 q e]
      localStiffness_translation [of 2 q e] that
    by simp
  have "get kG c b + get kG (c + 6) b =
          (\<Sum>q<12. (\<Sum>p<12. (get T p c + get T p (c + 6)) * get ?kL p q) * get T q b)"
    using kG c assms(4) by (simp add: sum.distrib [symmetric] distrib_right [symmetric])
  also have "\<dots> = 0"
    by (rule sum.neutral) (simp add: inner)
  finally show ?thesis .
qed

lemma index_delta:
  fixes c r i n :: nat
  assumes "c < 6" and "r < 6" and "i < n"
  shows "(\<Sum>t<n. if t * 6 + c = i * 6 + r then w else 0) = (if r = c then (w::real) else 0)"
proof -
  have "(t * 6 + c = i * 6 + r) \<longleftrightarrow> (t = i \<and> r = c)" for t
  proof
    assume eq: "t * 6 + c = i * 6 + r"
    from arg_cong [OF eq, of "\<lambda>x. x div 6"] assms(1,2) have "t = i" by simp
    moreover from arg_cong [OF eq, of "\<lambda>x. x mod 6"] assms(1,2) have "r = c" by simp
    ultimately show "t = i \<and> r = c" ..
  qed simp
  then show ?thesis
    using assms(3) by simp
qed

lemma scatter_translation:
  fixes dm :: "nat list"
  assumes dm: "dm = [i * 6, i * 6 + 1, i * 6 + 2, i * 6 + 3, i * 6 + 4, i * 6 + 5,
                     j * 6, j * 6 + 1, j * 6 + 2, j * 6 + 3, j * 6 + 4, j * 6 + 5]"
    and ij: "i < n" "j < n" and c: "c < 3"
    and kG: "\<And>b. b < 12 \<Longrightarrow> get kG c b + get kG (c + 6) b = 0"
  shows "(\<Sum>t<n. \<Sum>a<12. \<Sum>b<12. if t * 6 + c = dm ! a \<and> q = dm ! b then get kG a b else 0) = 0"
proof -
  define W where "W a = (\<Sum>b<12. if q = dm ! b then get kG a b else 0)" for a
  have 1: "(\<Sum>b<12. if p = dm ! a \<and> q = dm ! b then get kG a b else 0)
             = (if p = dm ! a then W a else 0)" for p a
    by (cases "p = dm ! a") (simp_all add: W_def)
  have c6: "c < 6" using c by simp
  have dm_nth: "\<forall>a<12. dm ! a = (if a < 6 then i else j) * 6 + a mod 6"
    unfolding all_less_12 dm by simp
  have 2: "(\<Sum>t<n. if t * 6 + c = dm ! a then W a else 0) = (if a mod 6 = c then W a else 0)"
    if "a < 12" for a
  proof -
    have "(if a < 6 then i else j) < n" using ij by simp
    from index_delta [OF c6 _ this, of "a mod 6" "W a"] dm_nth that show ?thesis by simp
  qed
  have "(\<Sum>t<n. \<Sum>a<12. \<Sum>b<12. if t * 6 + c = dm ! a \<and> q = dm ! b then get kG a b else 0)
          = (\<Sum>t<n. \<Sum>a<12. if t * 6 + c = dm ! a then W a else 0)"
    by (simp add: 1)
  also have "\<dots> = (\<Sum>a<12. \<Sum>t<n. if t * 6 + c = dm ! a then W a else 0)"
    by (rule sum.swap)
  also have "\<dots> = (\<Sum>a<12. if a mod 6 = c then W a else 0)"
    by (intro sum.cong refl) (simp add: 2)
  also have "\<dots> = W c + W (c + 6)"
    unfolding sum_12 using less_3_cases [OF c] by auto
  also have "\<dots> = (\<Sum>b<12. if q = dm ! b then get kG c b + get kG (c + 6) b else 0)"
    unfolding W_def sum.distrib [symmetric] by (intro sum.cong refl) simp
  also have "\<dots> = 0"
    by (rule sum.neutral) (simp add: kG)
  finally show ?thesis .
qed

lemma assembleElement_invariant:
  assumes "analyzerValid an" and "e \<in> set (elements an)"
    and "stiffnessInvariant (length (nodes (an_model an))) K"
  shows "\<exists>K'. assembleElement an e K = Inr K'
           \<and> stiffnessInvariant (length (nodes (an_model an))) K'"
proof -
  let ?n = "length (nodes (an_model an))"
  have n: "numDOF an = ?n * 6"
    using assms(1) by (simp add: analyzerValid_def)
  have sym: "symmetricOfSize (numDOF an) K"
    and bal: "\<And>c. c < 3 \<Longrightarrow> translationBalanced ?n c K"
    using assms(3) by (simp_all add: stiffnessInvariant_def n)
  from assembleElement_symmetric [OF assms(1,2) sym] obtain K' where
    K': "assembleElement an e K = Inr K'" "symmetricOfSize (numDOF an) K'"
    by blast
  have valid: "elementValid e"
    using assms(1,2) by (simp add: analyzerValid_def)
  obtain T and R :: Matrix where T: "transformationMatrix e = Inr T" "rows T = 12" "cols T = 12"
    using transformationMatrix_Inr [OF valid] by blast
  from globalStiffnessMatrix_get [OF T] obtain kG where kG: "globalStiffnessMatrix e = Inr kG"
    by blast
  from dofMapOf_Inr [OF assms(1,2)] obtain i j where ij: "i < ?n" "j < ?n"
    and dm: "dofMapOf an e = Inr [i * 6, i * 6 + 1, i * 6 + 2, i * 6 + 3, i * 6 + 4, i * 6 + 5,
                                j * 6, j * 6 + 1, j * 6 + 2, j * 6 + 3, j * 6 + 4, j * 6 + 5]"
    by blast
  let ?dm = "[i * 6, i * 6 + 1, i * 6 + 2, i * 6 + 3, i * 6 + 4, i * 6 + 5,
             j * 6, j * 6 + 1, j * 6 + 2, j * 6 + 3, j * 6 + 4, j * 6 + 5]"
  have K'_eq: "K' = scatterAdd kG ?dm K"
    using K'(1) by (simp add: assembleElement_def kG dm)
  have bound: "\<forall>k<12. ?dm ! k < numDOF an"
    unfolding n by (rule dofMap_bound [OF ij])
  have K: "wf_matrix K" "rows K = numDOF an" "cols K = numDOF an"
    using sym by (simp_all add: symmetricOfSize_def)
  note sc = scatterAdd_get [OF K bound, of kG]
  have "translationBalanced ?n c K'" if c: "c < 3" for c
    unfolding translationBalanced_def
  proof (intro allI impI)
    fix q assume "q < ?n * 6"
    have "(\<Sum>t<?n. get K' (t * 6 + c) q)
        = (\<Sum>t<?n. get K (t * 6 + c) q)
          + (\<Sum>t<?n. \<Sum>a<12. \<Sum>b<12. if t * 6 + c = ?dm ! a \<and> q = ?dm ! b then get kG a b else 0)"
      unfolding K'_eq sc(4) by (simp add: sum.distrib)
    also have "(\<Sum>t<?n. get K (t * 6 + c) q) = 0"
      using bal [OF c] \<open>q < ?n * 6\<close> by (simp add: translationBalanced_def)
    also have "(\<Sum>t<?n. \<Sum>a<12. \<Sum>b<12.
                  if t * 6 + c = ?dm ! a \<and> q = ?dm ! b then get kG a b else 0) = 0"
      by (rule scatter_translation [OF refl ij c])
        (rule globalStiffness_translation [OF kG valid c])
    finally show "(\<Sum>t<?n. get K' (t * 6 + c) q) = 0" by simp
  qed
  with K' show ?thesis
    by (simp add: stiffnessInvariant_def n)
qed

lemma assemble_invariant:
  assumes "analyzerValid an"
  shows "\<exists>K. assembleGlobalStiffnessMatrix an = Inr K
           \<and> stiffnessInvariant (length (nodes (an_model an))) K"
  unfolding assembleGlobalStiffnessMatrix_def
proof (rule foldE_invariant)
  have "numDOF an = length (nodes (an_model an)) * 6"
    using assms by (simp add: analyzerValid_def)
  then show "stiffnessInvariant (length (nodes (an_model an))) (zeros (numDOF an) (numDOF an))"
    by (simp add: stiffnessInvariant_def symmetricOfSize_def translationBalanced_def)
next
  fix e K
  assume "e \<in> set (elements an)" and "stiffnessInvariant (length (nodes (an_model an))) K"
  then show "\<exists>K'. assembleElement an e K = Inr K'
           \<and> stiffnessInvariant (length (nodes (an_model an))) K'"
    using assembleElement_invariant [OF assms] by blast
qed

lemma ex_localStiffness: "localStiffnessMatrix exElement = exStiffness"
  by (simp add: localStiffnessMatrix_def Let_def set_m_def zeros_def Matrix_new_def
      exElement_def exMaterial_def exSection_def exStiffness_def numeral_eq_Suc)

lemma ex_globalStiffness: "globalStiffnessMatrix exElement = Inr exStiffness"
  apply (simp add: globalStiffnessMatrix_def ex_transformation ex_localStiffness)
  apply (simp add: multiply_def transpose_m_def identity12_def exStiffness_def upt_12 get_def
      sum_loop_def)
  done

lemma upt_5: "[0..<5] = [0, 1, 2, 3, 4]" by code_simp

lemma ex_solve: "solve exK11 [0, - 1, 0, 0, 0, 0] = Inr [0, - 1 / 3, 0, 0, 0, - 1 / 2]"
  by (simp add: solve_def exK11_def clone_def get_def upt_6 upt_5 eliminationStep_def
      findPivot_def swapRows_def swapEntries_def eliminateRow_def backSubstitute_def
      backSubstituteRow_def set_m_def Let_def upt_rec [of "Suc _"] upt_rec [of "numeral _"])

lemma fold_pointwise_length [simp]:
  "length (fold (\<lambda>i r. r[i := g i (r ! i)]) [0..<n] r) = length r"
  by (induction n) simp_all

lemma fold_pointwise_nth:
  "k < length r \<Longrightarrow>
   fold (\<lambda>i r. r[i := g i (r ! i)]) [0..<n] r ! k = (if k < n then g k (r ! k) else r ! k)"
  by (induction n) (auto simp: nth_list_update less_Suc_eq)

lemma multiplyVector_Inr:
  assumes "multiplyVector K D = Inr KD"
  shows "cols K = length D" and "length KD = rows K"
    and "\<And>i. i < rows K \<Longrightarrow> KD ! i = (\<Sum>j<cols K. get K i j * D ! j)"
  using assms by (auto simp: multiplyVector_def sum_loop_sum split: if_splits)

lemma length_setVector [simp]: "length (setVector v idx vals) = length v"
proof -
  have "length (fold (\<lambda>i v. v[idx ! i := vals ! i]) xs v) = length v" for xs
    by (induction xs arbitrary: v) simp_all
  then show ?thesis by (simp add: setVector_def)
qed

lemma solveSystem_Inr:
  assumes "solveSystem an combo = Inr sol"
  shows "\<exists>K P D1. assembleGlobalStiffnessMatrix an = Inr K
          \<and> combinedLoadVector an combo = Inr P
          \<and> solve (subMatrix K (freeDOF an) (freeDOF an)) (extractVector P (freeDOF an)) = Inr D1
          \<and> sol_K sol = K \<and> sol_P sol = P
          \<and> sol_D sol = setVector (replicate (numDOF an) 0) (freeDOF an) D1
          \<and> cols K = numDOF an
          \<and> length (sol_reactions sol) = rows K
          \<and> (\<forall>k<rows K. sol_reactions sol ! k =
                (if k < numDOF an then (\<Sum>j<cols K. get K k j * sol_D sol ! j) - P ! k
                 else (\<Sum>j<cols K. get K k j * sol_D sol ! j)))"
proof -
  from assms obtain K P D1 KD where 1: "assembleGlobalStiffnessMatrix an = Inr K"
    "combinedLoadVector an combo = Inr P"
    "solve (subMatrix K (freeDOF an) (freeDOF an)) (extractVector P (freeDOF an)) = Inr D1"
    "multiplyVector K (setVector (replicate (numDOF an) 0) (freeDOF an) D1) = Inr KD"
    and sol: "sol = \<lparr>sol_K = K, sol_P = P,
        sol_D = setVector (replicate (numDOF an) 0) (freeDOF an) D1,
        sol_reactions = fold (\<lambda>i r. r[i := r ! i - P ! i]) [0..<numDOF an] KD\<rparr>"
    unfolding solveSystem_def Let_def bindE_eq_Inr by auto
  note mv = multiplyVector_Inr [OF 1(4)]
  have "\<forall>k<rows K. sol_reactions sol ! k =
                (if k < numDOF an then (\<Sum>j<cols K. get K k j * sol_D sol ! j) - P ! k
                 else (\<Sum>j<cols K. get K k j * sol_D sol ! j))"
    using mv(2,3) fold_pointwise_nth [where g = "\<lambda>i v. v - P ! i" and r = KD and n = "numDOF an"]
    by (simp add: sol)
  moreover have "length (sol_reactions sol) = rows K"
    using mv(2) fold_pointwise_length [where g = "\<lambda>i v. v - P ! i" and r = KD and n = "numDOF an"]
    by (simp add: sol)
  ultimately show ?thesis using 1 mv by (simp add: sol)
qed

lemma equilibrium_sum:
  assumes bal: "translationBalanced n c K" and "cols K = n * 6"
  shows "(\<Sum>t<n. \<Sum>j<cols K. get K (t * 6 + c) j * D ! j) = 0"
proof -
  have "(\<Sum>t<n. \<Sum>j<cols K. get K (t * 6 + c) j * D ! j)
      = (\<Sum>j<cols K. \<Sum>t<n. get K (t * 6 + c) j * D ! j)"
    by (rule sum.swap)
  also have "\<dots> = (\<Sum>j<cols K. (\<Sum>t<n. get K (t * 6 + c) j) * D ! j)"
    by (simp add: sum_distrib_right)
  also have "\<dots> = 0"
    using bal assms(2) by (intro sum.neutral) (simp add: translationBalanced_def)
  finally show ?thesis .
qed

lemma solve_equilibrium:
  assumes "analyzerValid an" and "solveSystem an combo = Inr sol" and "c < 3"
  shows "(\<Sum>t<length (nodes (an_model an)).
            sol_P sol ! (t * 6 + c) + sol_reactions sol ! (t * 6 + c)) = 0"
proof -
  let ?n = "length (nodes (an_model an))"
  have n: "numDOF an = ?n * 6"
    using assms(1) by (simp add: analyzerValid_def)
  from assemble_invariant [OF assms(1)] obtain K where
    K: "assembleGlobalStiffnessMatrix an = Inr K" and inv: "stiffnessInvariant ?n K"
    by blast
  from inv have dims: "rows K = ?n * 6" "cols K = ?n * 6" and bal: "translationBalanced ?n c K"
    using assms(3) by (simp_all add: stiffnessInvariant_def symmetricOfSize_def)
  from solveSystem_Inr [OF assms(2)] K have
    r: "\<forall>k<rows K. sol_reactions sol ! k =
          (if k < numDOF an then (\<Sum>j<cols K. get K k j * sol_D sol ! j) - sol_P sol ! k
           else (\<Sum>j<cols K. get K k j * sol_D sol ! j))"
    by auto
  have "sol_P sol ! (t * 6 + c) + sol_reactions sol ! (t * 6 + c)
          = (\<Sum>j<cols K. get K (t * 6 + c) j * sol_D sol ! j)" if "t < ?n" for t
  proof -
    have "t * 6 + c < ?n * 6" using that assms(3) by simp
    then show ?thesis using r by (simp add: dims n)
  qed
  then have "(\<Sum>t<?n. sol_P sol ! (t * 6 + c) + sol_reactions sol ! (t * 6 + c))
          = (\<Sum>t<?n. \<Sum>j<cols K. get K (t * 6 + c) j * sol_D sol ! j)"
    by (intro sum.cong refl) simp
  also have "\<dots> = 0"
    by (rule equilibrium_sum [OF bal dims(2)])
  finally show ?thesis .
qed

lemma ex_indexMap:
  "nodeIndexMap exAnalyzer ''N1'' = Some 0" "nodeIndexMap exAnalyzer ''N2'' = Some 1"
  by (simp_all add: exAnalyzer_def buildIndexMap_def exModel_def exNodeI_def exNodeJ_def
      upt_rec [of 0] upt_rec [of "Suc 0"])

lemma ex_dofMap: "dofMapOf exAnalyzer exElement = Inr [0, 1, 2, 3, 4, 5, 6, 7, 8, 9, 10, 11]"
  by (simp add: dofMapOf_def exElement_def exNodeI_def exNodeJ_def ex_indexMap)

lemma ex_scatter:
  "scatterAdd exStiffness [0, 1, 2, 3, 4, 5, 6, 7, 8, 9, 10, 11] (zeros 12 12) = exStiffness"
  apply (simp add: scatterAdd_def upt_12)
  apply (simp add: add_m_def set_m_def get_def zeros_def Matrix_new_def exStiffness_def
      numeral_eq_Suc)
  done

lemma ex_assemble: "assembleGlobalStiffnessMatrix exAnalyzer = Inr exStiffness"
proof -
  have "elements exAnalyzer = [exElement]" "numDOF exAnalyzer = 12"
    by (simp_all add: exAnalyzer_def)
  then show ?thesis
    using ex_scatter
    by (simp add: assembleGlobalStiffnessMatrix_def assembleElement_def ex_globalStiffness
        ex_dofMap)
qed

lemma ex_assembleLoadVector:
  "assembleLoadVector exAnalyzer (hd (loadCases exModel)) = Inr exP"
proof -
  have 1: "fixedEndReactions exElement [] = Inr (replicate 12 0)"
    apply (simp add: fixedEndReactions_def ex_transformation)
    apply (simp add: multiply_def transpose_m_def fromArray_def identity12_def upt_12 get_def
        sum_loop_def Let_def numeral_eq_Suc)
    done
  have 2: "elements exAnalyzer = [exElement]" "numDOF exAnalyzer = 12"
    by (simp_all add: exAnalyzer_def)
  show ?thesis
    apply (simp add: assembleLoadVector_def exModel_def 2 addNodeLoad_def ex_indexMap
        toUpperCase_def upperChar_def getDOFOffset_def addElementFER_def 1)
    apply (simp add: exElement_def exNodeI_def exNodeJ_def ex_indexMap subtractFER_def upt_6
        addTo_def exP_def numeral_eq_Suc)
    done
qed

lemma ex_combinedLoadVector: "combinedLoadVector exAnalyzer (exCombination 1) = Inr exP"
proof -
  have 1: "find (\<lambda>lc. lc_name lc = ''A'') (loadCases (an_model exAnalyzer)) = Some (hd (loadCases exModel))"
    by (simp add: exAnalyzer_def exModel_def)
  have 2: "numDOF exAnalyzer = 12" by (simp add: exAnalyzer_def)
  show ?thesis
    apply (simp add: combinedLoadVector_def exCombination_def addCase_def 1 ex_assembleLoadVector 2)
    apply (simp add: upt_12 exP_def numeral_eq_Suc)
    done
qed

lemma ex_solveSystem:
  "solveSystem exAnalyzer (exCombination 1) =
     Inr \<lparr>sol_K = exStiffness, sol_P = exP, sol_D = exD, sol_reactions = exReactions\<rparr>"
proof -
  have f: "freeDOF exAnalyzer = [6, 7, 8, 9, 10, 11]" "numDOF exAnalyzer = 12"
    by (simp_all add: exAnalyzer_def)
  have K11: "subMatrix exStiffness [6, 7, 8, 9, 10, 11] [6, 7, 8, 9, 10, 11] = exK11"
    by (simp add: subMatrix_def exStiffness_def get_def exK11_def)
  have P1: "extractVector exP [6, 7, 8, 9, 10, 11] = [0, - 1, 0, 0, 0, 0]"
    by (simp add: extractVector_def exP_def)
  have D: "setVector (replicate 12 0) [6, 7, 8, 9, 10, 11] [0, - 1 / 3, 0, 0, 0, - 1 / 2] = exD"
    by (simp add: setVector_def upt_6 exD_def numeral_eq_Suc)
  have KD: "multiplyVector exStiffness exD = Inr [0, 1, 0, 0, 0, 1, 0, - 1, 0, 0, 0, 0]"
    by (simp add: multiplyVector_def exStiffness_def exD_def upt_12 get_def sum_loop_def)
  have R: "fold (\<lambda>i r. r[i := r ! i - exP ! i]) [0..<12] [0, 1, 0, 0, 0, 1, 0, - 1, 0, 0, 0, 0]
             = exReactions"
    by (simp add: upt_12 exP_def exReactions_def numeral_eq_Suc)
  show ?thesis
    using D KD R ex_solve
    by (simp add: solveSystem_def ex_assemble ex_combinedLoadVector f K11 P1 Let_def)
qed

lemma memberResultOf_eq:
  assumes "analyzerValid an" and "e \<in> set (elements an)"
  shows "memberResultOf an D combo e = Inr (memberResultPure an D e)"
proof -
  have valid: "elementValid e"
    using assms by (simp add: analyzerValid_def)
  from dofMapOf_Inr [OF assms] obtain i j where
    ij: "nodeIndexMap an (node_id (el_iNode e)) = Some i"
      "nodeIndexMap an (node_id (el_jNode e)) = Some j"
    by blast
  have len: "length (elementD D i j) = 12" by (simp add: elementD_def)
  from computeMemberForces_eq [OF valid len] obtain T where T: "transformationMatrix e = Inr T"
    and cmf: "\<And>loads numPoints. computeMemberForces e (elementD D i j) loads numPoints =
           Inr (map (samplePoint e (localEndForces (localStiffnessMatrix e) T (elementD D i j))
                       numPoints) [0..<Suc numPoints])"
    by blast
  have eleven: "Suc 11 = 12" by simp
  show ?thesis
    unfolding memberResultOf_def memberResultPure_def ij
    apply (simp only: prod.case option.case Let_def elementD_def [symmetric])
    apply (simp only: cmf bindE_Inr T sum.sel option.sel memberResultFrom_def Let_def eleven)
    done
qed

lemma foldE_collect:
  assumes "\<forall>x\<in>set xs. f x = Inr (g x)"
  shows "foldE (\<lambda>x acc. bindE (f x) (\<lambda>r. Inr (acc @ [r]))) xs acc = Inr (acc @ map g xs)"
  using assms by (induction xs arbitrary: acc) simp_all

lemma extractMemberResults_eq:
  assumes "analyzerValid an"
  shows "extractMemberResults an D combo = Inr (map (memberResultPure an D) (elements an))"
  unfolding extractMemberResults_def
  using foldE_collect [of "elements an" "memberResultOf an D combo" "memberResultPure an D" "[]"]
    memberResultOf_eq [OF assms]
  by simp

lemma analyzeCombination_eq:
  assumes "analyzerValid an"
  shows "analyzeCombination an name combo =
     (case solveSystem an combo of
        Inl e \<Rightarrow> Inl e
      | Inr sol \<Rightarrow>
          Inr \<lparr>res_success = True, res_error = None, res_loadCase = name,
               res_nodes = extractNodeResults an (sol_D sol) (sol_reactions sol),
               res_members = map (memberResultPure an (sol_D sol)) (elements an),
               res_summary =
                 computeSummary (extractNodeResults an (sol_D sol) (sol_reactions sol))
                   (map (memberResultPure an (sol_D sol)) (elements an))\<rparr>)"
  by (simp add: analyzeCombination_def extractMemberResults_eq [OF assms] Let_def
      split: sum.splits)

lemma analyze_found:
  assumes "analyzerValid an"
    and "find (\<lambda>c. combo_name c = name) (loadCombinations (an_model an)) = Some combo"
  shows "fst (analyze an name) =
     (case solveSystem an combo of
        Inl e \<Rightarrow> failedResult name e
      | Inr sol \<Rightarrow>
          \<lparr>res_success = True, res_error = None, res_loadCase = name,
           res_nodes = extractNodeResults an (sol_D sol) (sol_reactions sol),
           res_members = map (memberResultPure an (sol_D sol)) (elements an),
           res_summary =
             computeSummary (extractNodeResults an (sol_D sol) (sol_reactions sol))
               (map (memberResultPure an (sol_D sol)) (elements an))\<rparr>)"
  by (simp add: analyze_def analyzeResult_def assms(2) analyzeCombination_eq [OF assms(1)]
      split: sum.splits)

lemma extractNodeResults_reaction:
  assumes "t < length (nodes (an_model an))" and "c < 6"
  shows "dofComponent (nr_reaction (extractNodeResults an D r ! t)) c = r ! (t * 6 + c)"
    and "dofComponent (nr_displacement (extractNodeResults an D r ! t)) c = D ! (t * 6 + c)"
  using assms(1) less_6_cases [OF assms(2)]
  by (auto simp: extractNodeResults_def dofComponent_def Let_def)

text \<open>
  Claim C2, as stated, at the cantilever of the spec with unit properties (node N1 fixed,
  a load of -1 in FY at N2): the analysis succeeds, and in the moment direction MZ
  (component 5) the loads and reactions summed over the nodes give 1, not 0: the sum of
  nodal moments leaves out the moment of the forces about the origin.
\<close>

theorem equilibrium_moment_counterexample:
  "new_Analyzer exModel = Inr exAnalyzer
   \<and> res_success (fst (analyze exAnalyzer ''C1''))
   \<and> combinedLoadVector exAnalyzer (exCombination 1) = Inr exP
   \<and> (\<Sum>t<length (nodes exModel).
         exP ! (t * 6 + 5)
         + dofComponent (nr_reaction (res_nodes (fst (analyze exAnalyzer ''C1'')) ! t)) 5) = 1"
proof -
  have valid: "analyzerValid exAnalyzer"
    using new_Analyzer_valid(1) [OF ex_new_Analyzer] .
  have found: "find (\<lambda>c. combo_name c = ''C1'') (loadCombinations (an_model exAnalyzer))
                 = Some (exCombination 1)"
    by (simp add: exAnalyzer_def exModel_def exCombination_def)
  have nodes: "nodes (an_model exAnalyzer) = [exNodeI, exNodeJ]"
    by (simp add: exAnalyzer_def exModel_def)
  have "(\<Sum>t<length (nodes exModel).
         exP ! (t * 6 + 5)
         + dofComponent (nr_reaction (res_nodes (fst (analyze exAnalyzer ''C1'')) ! t)) 5) = 1"
    unfolding analyze_found [OF valid found] ex_solveSystem
    by (simp add: exModel_def extractNodeResults_def nodes dofComponent_def exP_def
        exReactions_def upt_rec [of 0] upt_rec [of "Suc 0"] lessThan_Suc numeral_2_eq_2)
  moreover have "res_success (fst (analyze exAnalyzer ''C1''))"
    unfolding analyze_found [OF valid found] ex_solveSystem by simp
  ultimately show ?thesis
    using ex_new_Analyzer ex_combinedLoadVector by simp
qed

text \<open>
  Claim C2, amended. For every analyzer built from a model and every combination of the
  model whose analysis succeeds, the combined load vector \<open>P\<close> (the applied nodal
  loads minus the fixed-end reactions, weighted by the factors) plus the computed
  reactions \<open>K D - P\<close>, summed over all nodes, is zero in each of the three translation
  directions \<open>c = 0, 1, 2\<close>.
\<close>

theorem translational_equilibrium:
  assumes "new_Analyzer model = Inr an"
    and "find (\<lambda>c. combo_name c = name) (loadCombinations model) = Some combo"
    and "res_success (fst (analyze an name))"
    and "c < 3"
  shows "\<exists>P. combinedLoadVector an combo = Inr P
           \<and> length (res_nodes (fst (analyze an name))) = length (nodes model)
           \<and> (\<Sum>t<length (nodes model).
                 P ! (t * 6 + c)
                 + dofComponent (nr_reaction (res_nodes (fst (analyze an name)) ! t)) c) = 0"
proof -
  note valid = new_Analyzer_valid [OF assms(1)]
  have found: "find (\<lambda>c. combo_name c = name) (loadCombinations (an_model an)) = Some combo"
    using assms(2) valid(2) by simp
  from assms(3) obtain sol where sol: "solveSystem an combo = Inr sol"
    unfolding analyze_found [OF valid(1) found]
    by (cases "solveSystem an combo") (simp_all add: failedResult_def)
  have res: "res_nodes (fst (analyze an name)) = extractNodeResults an (sol_D sol) (sol_reactions sol)"
    unfolding analyze_found [OF valid(1) found] sol by simp
  from solveSystem_Inr [OF sol] have P: "combinedLoadVector an combo = Inr (sol_P sol)"
    by auto
  have "(\<Sum>t<length (nodes model).
           sol_P sol ! (t * 6 + c)
           + dofComponent (nr_reaction (res_nodes (fst (analyze an name)) ! t)) c)
      = (\<Sum>t<length (nodes model). sol_P sol ! (t * 6 + c) + sol_reactions sol ! (t * 6 + c))"
    using assms(4) by (intro sum.cong refl) (simp add: res extractNodeResults_reaction valid(2))
  also have "\<dots> = 0"
    using solve_equilibrium [OF valid(1) sol assms(4)] valid(2) by simp
  finally show ?thesis
    using P by (simp add: res extractNodeResults_def valid(2))
qed

theorem translational_equilibrium_witness:
  "new_Analyzer exModel = Inr exAnalyzer
   \<and> find (\<lambda>c. combo_name c = ''C1'') (loadCombinations exModel) = Some (exCombination 1)
   \<and> res_success (fst (analyze exAnalyzer ''C1''))
   \<and> (1::nat) < 3
   \<and> (\<exists>P. combinedLoadVector exAnalyzer (exCombination 1) = Inr P
          \<and> (\<Sum>t<length (nodes exModel).
                P ! (t * 6 + 1)
                + dofComponent (nr_reaction (res_nodes (fst (analyze exAnalyzer ''C1'')) ! t)) 1) = 0)"
proof -
  have found: "find (\<lambda>c. combo_name c = ''C1'') (loadCombinations exModel) = Some (exCombination 1)"
    by (simp add: exModel_def exCombination_def)
  have found': "find (\<lambda>c. combo_name c = ''C1'') (loadCombinations (an_model exAnalyzer))
                 = Some (exCombination 1)"
    using found by (simp add: exAnalyzer_def)
  have ok: "res_success (fst (analyze exAnalyzer ''C1''))"
    unfolding analyze_found [OF new_Analyzer_valid(1) [OF ex_new_Analyzer] found'] ex_solveSystem
    by simp
  have c: "(1::nat) < 3" by simp
  from translational_equilibrium [OF ex_new_Analyzer found ok c] ex_new_Analyzer found ok
  show ?thesis by auto
qed

text \<open>Whether global DOF \<open>d\<close> is constrained by the support of its node.\<close>

lemma classify_inner:
  "fold (\<lambda>j (free, fixed).
           if cs ! j then (free, fixed @ [b + j]) else (free @ [b + j], fixed)) js (free, fixed)
     = (free @ map (\<lambda>j. b + j) (filter (\<lambda>j. \<not> cs ! j) js),
        fixed @ map (\<lambda>j. b + j) (filter (\<lambda>j. cs ! j) js))"
  by (induction js arbitrary: free fixed) simp_all

lemma filter_block:
  fixes i :: nat
  shows "filter P [i * 6..<Suc i * 6] = map (\<lambda>j. i * 6 + j) (filter (\<lambda>j. P (i * 6 + j)) [0..<6])"
proof -
  have "[i * 6..<Suc i * 6] = map (\<lambda>j. j + i * 6) [0..<6]"
    by (simp add: map_add_upt)
  also have "\<dots> = map (\<lambda>j. i * 6 + j) [0..<6]"
    by (intro map_cong refl) simp
  finally show ?thesis by (simp add: filter_map comp_def)
qed

lemma classifyDOF_eq:
  "classifyDOF ns sm =
     (filter (\<lambda>d. \<not> constrained ns sm d) [0..<length ns * 6],
      filter (constrained ns sm) [0..<length ns * 6])"
proof -
  define step where "step i = fold (\<lambda>j (free, fixed).
                        if constraintsOf (sm (node_id (ns ! i))) ! j then (free, fixed @ [i * 6 + j])
                        else (free @ [i * 6 + j], fixed))
                     [0..<6]" for i
  have def: "classifyDOF ns sm = fold step [0..<length ns] ([], [])"
    unfolding classifyDOF_def Let_def step_def ..
  have con: "constrained ns sm (i * 6 + j) = constraintsOf (sm (node_id (ns ! i))) ! j"
    if "j < 6" for i j
    using that by (simp add: constrained_def)
  have "fold step [0..<m] ([], []) =
     (filter (\<lambda>d. \<not> constrained ns sm d) [0..<m * 6], filter (constrained ns sm) [0..<m * 6])" for m
  proof (induction m)
    case 0
    then show ?case by simp
  next
    case (Suc m)
    have split: "[0..<Suc m * 6] = [0..<m * 6] @ [m * 6..<Suc m * 6]"
      using upt_add_eq_append [of 0 "m * 6" 6] by (simp add: add.commute)
    have f1: "filter (\<lambda>j. \<not> constrained ns sm (m * 6 + j)) [0..<6]
           = filter (\<lambda>j. \<not> constraintsOf (sm (node_id (ns ! m))) ! j) [0..<6]"
      by (intro filter_cong refl) (simp add: con)
    have f2: "filter (\<lambda>j. constrained ns sm (m * 6 + j)) [0..<6]
           = filter (\<lambda>j. constraintsOf (sm (node_id (ns ! m))) ! j) [0..<6]"
      by (intro filter_cong refl) (simp add: con)
    have "fold step [0..<Suc m] ([], []) = step m (fold step [0..<m] ([], []))"
      by simp
    also have "\<dots> = step m (filter (\<lambda>d. \<not> constrained ns sm d) [0..<m * 6],
                            filter (constrained ns sm) [0..<m * 6])"
      by (simp only: Suc.IH)
    also have "\<dots> = (filter (\<lambda>d. \<not> constrained ns sm d) [0..<Suc m * 6],
                     filter (constrained ns sm) [0..<Suc m * 6])"
      unfolding step_def classify_inner split filter_append filter_block f1 f2 ..
    finally show ?case .
  qed
  then show ?thesis
    by (simp add: def)
qed

lemma freeDOF_eq:
  assumes "new_Analyzer model = Inr an"
  shows "freeDOF an = filter (\<lambda>d. \<not> constrained (nodes model) (supportMap an) d)
                        [0..<length (nodes model) * 6]"
proof -
  from new_Analyzer_fields [OF assms] obtain els free fixed where
    cd: "classifyDOF (nodes model) (buildMap sup_node (supports model)) = (free, fixed)"
    and an: "an = \<lparr>an_model = model, nodeMap = buildMap node_id (nodes model),
               nodeIndexMap = buildIndexMap (nodes model),
               materialMap = buildMap mat_id (materials model),
               sectionMap = buildMap sec_id (sections model),
               supportMap = buildMap sup_node (supports model), elements = els,
               numDOF = length (nodes model) * 6, freeDOF = free, fixedDOF = fixed\<rparr>"
    by blast
  have "freeDOF an = free" "supportMap an = buildMap sup_node (supports model)"
    unfolding an by simp_all
  with cd show ?thesis
    by (simp add: classifyDOF_eq)
qed

section \<open>Facts about the solver\<close>

lemma findPivot_range:
  assumes "k < n"
  shows "k \<le> snd (findPivot A n k) \<and> snd (findPivot A n k) < n"
proof -
  have "k \<le> snd (fold (\<lambda>i (maxVal, maxRow).
             if \<bar>get A i k\<bar> > maxVal then (\<bar>get A i k\<bar>, i) else (maxVal, maxRow)) xs s)
      \<and> snd (fold (\<lambda>i (maxVal, maxRow).
             if \<bar>get A i k\<bar> > maxVal then (\<bar>get A i k\<bar>, i) else (maxVal, maxRow)) xs s) < n"
    if "k \<le> snd s" "snd s < n" "\<forall>i\<in>set xs. k \<le> i \<and> i < n" for xs s
    using that by (induction xs arbitrary: s) (auto split: prod.splits)
  from this [of "(\<bar>get A k k\<bar>, k)" "[Suc k..<n]"] assms show ?thesis
    by (simp add: findPivot_def)
qed

lemma length_swapEntries [simp]: "length (swapEntries x k m) = length x"
  by (simp add: swapEntries_def Let_def)

lemma swapEntries_scale:
  assumes "k < length x" and "m < length x"
  shows "swapEntries (map ((*) c) x) k m = map ((*) (c::real)) (swapEntries x k m)"
  using assms by (simp add: swapEntries_def Let_def map_update)

lemma eliminateRow_fst_snd:
  "snd (eliminateRow n k akk i (A, x)) = x[i := x ! i - get A i k / akk * x ! k]"
  "fst (eliminateRow n k akk i (A, x)) = fst (eliminateRow n k akk i (A, y))"
  by (simp_all add: eliminateRow_def Let_def)

lemma eliminateRow_scale:
  assumes "i < length x" and "k < length x"
  shows "eliminateRow n k akk i (scaleRhs c (A, x)) = scaleRhs c (eliminateRow n k akk i (A, x))"
  using assms
  by (simp add: eliminateRow_def scaleRhs_def Let_def map_update algebra_simps)

lemma length_eliminateRow [simp]:
  "length (snd (eliminateRow n k akk i s)) = length (snd s)"
  by (cases s) (simp add: eliminateRow_def Let_def)

lemma length_fold_eliminateRow [simp]:
  "length (snd (fold (eliminateRow n k akk) xs s)) = length (snd s)"
  by (induction xs arbitrary: s) simp_all

lemma fold_eliminateRow_scale:
  assumes "\<forall>i\<in>set xs. i < length (snd s)" and "k < length (snd s)"
  shows "fold (eliminateRow n k akk) xs (scaleRhs c s) = scaleRhs c (fold (eliminateRow n k akk) xs s)"
  using assms
proof (induction xs arbitrary: s)
  case Nil
  then show ?case by simp
next
  case (Cons i xs)
  obtain A x where s: "s = (A, x)" by (cases s)
  have "eliminateRow n k akk i (scaleRhs c s) = scaleRhs c (eliminateRow n k akk i s)"
    unfolding s using Cons.prems by (intro eliminateRow_scale) (simp_all add: s)
  then show ?case
    using Cons.IH [of "eliminateRow n k akk i s"] Cons.prems by simp
qed

lemma eliminationStep_length:
  "eliminationStep n k s = Inr s' \<Longrightarrow> length (snd s') = length (snd s)"
  by (cases s) (auto simp: eliminationStep_def Let_def split: if_splits prod.splits)

lemma eliminationStep_scale:
  assumes "k < n" and "length (snd s) = n"
  shows "eliminationStep n k (scaleRhs c s) = map_sum id (scaleRhs c) (eliminationStep n k s)"
proof -
  obtain A x where s: "s = (A, x)" by (cases s)
  have m: "snd (findPivot A n k) < length x" "k < length x"
    using findPivot_range [OF assms(1), of A] assms by (simp_all add: s)
  have sw: "(swapRows A n k (snd (findPivot A n k)), swapEntries (map ((*) c) x) k (snd (findPivot A n k)))
          = scaleRhs c (swapRows A n k (snd (findPivot A n k)), swapEntries x k (snd (findPivot A n k)))"
    using m by (simp add: scaleRhs_def swapEntries_scale)
  have el: "fold (eliminateRow n k akk) [Suc k..<n] (scaleRhs c t)
          = scaleRhs c (fold (eliminateRow n k akk) [Suc k..<n] t)"
    if "length (snd t) = n" for t akk
    using that assms(1) by (intro fold_eliminateRow_scale) simp_all
  show ?thesis
  proof (cases "snd (findPivot A n k) \<noteq> k")
    case True
    then show ?thesis
      unfolding s eliminationStep_def
      using el [of "(swapRows A n k (snd (findPivot A n k)), swapEntries x k (snd (findPivot A n k)))"]
        assms(2)
      by (simp add: Let_def sw [unfolded scaleRhs_def, simplified] scaleRhs_def s)
  next
    case False
    then show ?thesis
      unfolding s eliminationStep_def
      using el [of "(A, x)"] assms(2)
      by (simp add: Let_def scaleRhs_def s)
  qed
qed

lemma foldE_eliminationStep_length:
  "foldE (eliminationStep n) ks s = Inr s' \<Longrightarrow> length (snd s') = length (snd s)"
proof (induction ks arbitrary: s)
  case Nil
  then show ?case by simp
next
  case (Cons k ks)
  then show ?case
    by (auto split: sum.splits dest: eliminationStep_length)
qed

lemma foldE_eliminationStep_scale:
  assumes "\<forall>k\<in>set ks. k < n" and "length (snd s) = n"
  shows "foldE (eliminationStep n) ks (scaleRhs c s)
           = map_sum id (scaleRhs c) (foldE (eliminationStep n) ks s)"
  using assms
proof (induction ks arbitrary: s)
  case Nil
  then show ?case by simp
next
  case (Cons k ks)
  have step: "eliminationStep n k (scaleRhs c s) = map_sum id (scaleRhs c) (eliminationStep n k s)"
    using Cons.prems by (intro eliminationStep_scale) simp_all
  show ?case
  proof (cases "eliminationStep n k s")
    case (Inl e)
    then show ?thesis using step by simp
  next
    case (Inr s1)
    have "length (snd s1) = n"
      using eliminationStep_length [OF Inr] Cons.prems(2) by simp
    from Cons.IH [OF _ this] Cons.prems(1) show ?thesis
      using step Inr by simp
  qed
qed

lemma backSubstituteRow_inner_scale:
  assumes "i < length x" and "\<forall>j\<in>set js. j < length x"
  shows "fold (\<lambda>j x. x[i := x ! i - get A i j * x ! j]) js (map ((*) c) x)
           = map ((*) (c::real)) (fold (\<lambda>j x. x[i := x ! i - get A i j * x ! j]) js x)"
  using assms
proof (induction js arbitrary: x)
  case Nil
  then show ?case by simp
next
  case (Cons j js)
  have "(map ((*) c) x)[i := map ((*) c) x ! i - get A i j * map ((*) c) x ! j]
          = map ((*) c) (x[i := x ! i - get A i j * x ! j])"
    using Cons.prems by (simp add: map_update algebra_simps)
  then show ?case
    using Cons.IH [of "x[i := x ! i - get A i j * x ! j]"] Cons.prems by simp
qed

lemma length_backSubstituteRow_inner [simp]:
  "length (fold (\<lambda>j x. x[i := x ! i - get A i j * x ! j]) js x) = length x"
  by (induction js arbitrary: x) simp_all

lemma length_backSubstituteRow [simp]: "length (backSubstituteRow A n i x) = length x"
  by (simp add: backSubstituteRow_def Let_def)

lemma backSubstituteRow_scale:
  assumes "i < n" and "length x = n"
  shows "backSubstituteRow A n i (map ((*) c) x) = map ((*) (c::real)) (backSubstituteRow A n i x)"
proof -
  have "fold (\<lambda>j x. x[i := x ! i - get A i j * x ! j]) [Suc i..<n] (map ((*) c) x)
           = map ((*) c) (fold (\<lambda>j x. x[i := x ! i - get A i j * x ! j]) [Suc i..<n] x)"
    using assms by (intro backSubstituteRow_inner_scale) simp_all
  then show ?thesis
    using assms by (simp add: backSubstituteRow_def Let_def map_update)
qed

lemma backSubstitute_scale:
  assumes "length x = n"
  shows "backSubstitute A n (map ((*) c) x) = map ((*) (c::real)) (backSubstitute A n x)"
proof -
  have "fold (backSubstituteRow A n) is (map ((*) c) x)
          = map ((*) c) (fold (backSubstituteRow A n) is x)"
    if "\<forall>i\<in>set is. i < n" "length x = n" for "is" x
    using that
  proof (induction "is" arbitrary: x)
    case Nil
    then show ?case by simp
  next
    case (Cons i "is")
    then show ?case
      by (simp add: backSubstituteRow_scale)
  qed
  from this [of "rev [0..<n]" x] assms show ?thesis
    by (simp add: backSubstitute_def)
qed

lemma length_backSubstitute [simp]: "length (backSubstitute A n x) = length x"
proof -
  have "length (fold (backSubstituteRow A n) is x) = length x" for "is"
    by (induction "is" arbitrary: x) simp_all
  then show ?thesis by (simp add: backSubstitute_def)
qed

text \<open>\<open>solve\<close> is linear in the right-hand side, and whether it throws depends on the matrix only.\<close>

lemma solve_scale:
  "solve A (map ((*) c) b) = map_sum id (map ((*) c)) (solve A b)"
proof (cases "rows A \<noteq> cols A \<or> rows A \<noteq> length b")
  case True
  then show ?thesis by (auto simp: solve_def)
next
  case False
  then have dims: "rows A = cols A" "rows A = length b" by simp_all
  let ?n = "rows A"
  have el: "foldE (eliminationStep ?n) [0..<?n - 1] (clone A, map ((*) c) b)
       = map_sum id (scaleRhs c) (foldE (eliminationStep ?n) [0..<?n - 1] (clone A, b))"
  proof -
    have "\<forall>k\<in>set [0..<?n - 1]. k < ?n" by auto
    moreover have "length (snd (clone A, b)) = ?n" using dims by simp
    ultimately show ?thesis
      using foldE_eliminationStep_scale [of "[0..<?n - 1]" ?n "(clone A, b)" c]
      by (simp add: scaleRhs_def)
  qed
  show ?thesis
  proof (cases "foldE (eliminationStep ?n) [0..<?n - 1] (clone A, b)")
    case (Inl e)
    then show ?thesis using el dims by (simp add: solve_def)
  next
    case (Inr s)
    obtain U x where s: "s = (U, x)" by (cases s)
    have "length x = ?n"
      using foldE_eliminationStep_length [OF Inr] dims by (simp add: s)
    then show ?thesis
      using el dims Inr by (simp add: solve_def s scaleRhs_def backSubstitute_scale Let_def)
  qed
qed

section \<open>Linearity of the analysis in the load factor\<close>


text \<open>
  Scaling of a result by a factor: every displacement, reaction and member force component
  and every extremum value is multiplied; identifiers, sample positions and extremum
  locations stay.
\<close>

lemma abs_scale_less:
  fixes c :: real
  assumes "0 < c"
  shows "\<bar>c * a\<bar> < \<bar>c * b\<bar> \<longleftrightarrow> \<bar>a\<bar> < \<bar>b\<bar>"
  using assms by (simp add: abs_mult)

lemma findMax_scale:
  assumes "0 < c" and "\<And>f. key (scaleForces c f) = c * key f"
  shows "findMax (map (scaleForces c) fs) key = scaleMax c (findMax fs key)"
proof -
  let ?step = "\<lambda>f (maxVal, maxLoc).
                    let val = \<bar>key f\<bar> in
                    if val > \<bar>maxVal\<bar> then (key f, mf_x f) else (maxVal, maxLoc)"
  have "fold ?step (map (scaleForces c) fs) (c * mv, ml)
          = (c * fst (fold ?step fs (mv, ml)), snd (fold ?step fs (mv, ml)))" for mv ml
  proof (induction fs arbitrary: mv ml)
    case Nil
    then show ?case by simp
  next
    case (Cons f fs)
    have x: "mf_x (scaleForces c f) = mf_x f" by (simp add: scaleForces_def)
    show ?case
      using Cons.IH [of "key f" "mf_x f"] Cons.IH [of mv ml]
      by (simp add: Let_def assms(2) abs_scale_less [OF assms(1)] x)
  qed
  from this [of 0 0] show ?thesis
    by (simp add: findMax_def scaleMax_def split: prod.splits)
qed

lemma maxOverNodes_scale:
  assumes "0 < c" and "\<And>r. part (scaleNodeResult c r) = scaleDOF c (part r)"
  shows "maxOverNodes part (map (scaleNodeResult c) ns) = scaleNodeExtremum c (maxOverNodes part ns)"
proof -
  define step where "step node = (\<lambda>(dir, sel) m.
                     if \<bar>sel (part node)\<bar> > \<bar>ne_value m\<bar>
                     then \<lparr>ne_nodeId = nr_nodeId node, ne_value = (sel (part node) :: real),
                           ne_direction = (dir :: string)\<rparr>
                     else m)" for node
  have one: "step (scaleNodeResult c node) (dir, sel) (scaleNodeExtremum c m)
               = scaleNodeExtremum c (step node (dir, sel) m)"
    if "\<And>d. sel (scaleDOF c d) = c * sel d" for node dir sel m
  proof -
    have nid: "nr_nodeId (scaleNodeResult c node) = nr_nodeId node"
      by (simp add: scaleNodeResult_def)
    show ?thesis
      by (simp add: step_def assms(2) that scaleNodeExtremum_def abs_scale_less [OF assms(1)] nid)
  qed
  have sel: "dof_dx (scaleDOF c d) = c * dof_dx d" "dof_dy (scaleDOF c d) = c * dof_dy d"
    "dof_dz (scaleDOF c d) = c * dof_dz d" for d
    by (simp_all add: scaleDOF_def)
  define inner where
    "inner node = fold (step node) [(''dx'', dof_dx), (''dy'', dof_dy), (''dz'', dof_dz)]" for node
  have inner: "inner (scaleNodeResult c node) (scaleNodeExtremum c m)
             = scaleNodeExtremum c (inner node m)" for node m
    unfolding inner_def
    by (simp only: fold.simps comp_def id_def one [of dof_dx, OF sel(1)] one [of dof_dy, OF sel(2)]
        one [of dof_dz, OF sel(3)])
  have "fold inner (map (scaleNodeResult c) ns) (scaleNodeExtremum c m)
          = scaleNodeExtremum c (fold inner ns m)" for m
    by (induction ns arbitrary: m) (simp_all add: inner)
  moreover have "maxOverNodes part xs = fold inner xs \<lparr>ne_nodeId = [], ne_value = 0, ne_direction = []\<rparr>"
    for xs
    unfolding maxOverNodes_def inner_def step_def ..
  moreover have "scaleNodeExtremum c \<lparr>ne_nodeId = [], ne_value = 0, ne_direction = []\<rparr>
      = \<lparr>ne_nodeId = [], ne_value = 0, ne_direction = []\<rparr>"
    by (simp add: scaleNodeExtremum_def)
  ultimately show ?thesis by metis
qed

lemma maxOverMembers_scale:
  assumes "0 < c"
    and "\<And>r. mx_value (part (scaleMaxForces c r)) = c * mx_value (part r)"
    and "\<And>r. mx_location (part (scaleMaxForces c r)) = mx_location (part r)"
  shows "maxOverMembers part (map (scaleMemberResult c) ms)
           = scaleMemberExtremum c (maxOverMembers part ms)"
proof -
  let ?step = "\<lambda>member m.
             if \<bar>mx_value (part (mr_maxForces member))\<bar> > \<bar>me_value m\<bar>
             then \<lparr>me_memberId = mr_memberId member,
                   me_value = mx_value (part (mr_maxForces member)),
                   me_location = mx_location (part (mr_maxForces member))\<rparr>
             else m"
  have step: "?step (scaleMemberResult c member) (scaleMemberExtremum c m)
                = scaleMemberExtremum c (?step member m)" for member m
  proof -
    have f: "mr_memberId (scaleMemberResult c member) = mr_memberId member"
      "mr_maxForces (scaleMemberResult c member) = scaleMaxForces c (mr_maxForces member)"
      by (simp_all add: scaleMemberResult_def)
    show ?thesis
      by (simp add: assms(2,3) f scaleMemberExtremum_def abs_scale_less [OF assms(1)])
  qed
  have "fold ?step (map (scaleMemberResult c) ms) (scaleMemberExtremum c m)
          = scaleMemberExtremum c (fold ?step ms m)" for m
  proof (induction ms arbitrary: m)
    case Nil
    then show ?case by simp
  next
    case (Cons member ms)
    show ?case
      using Cons.IH [of "?step member m"] by (simp only: list.map fold.simps comp_def step)
  qed
  from this [of "\<lparr>me_memberId = [], me_value = 0, me_location = 0\<rparr>"] show ?thesis
    by (simp add: maxOverMembers_def scaleMemberExtremum_def)
qed

lemma computeSummary_scale:
  assumes "0 < c"
  shows "computeSummary (map (scaleNodeResult c) ns) (map (scaleMemberResult c) ms)
           = scaleSummary c (computeSummary ns ms)"
  unfolding computeSummary_def scaleSummary_def
  by (simp add: maxOverNodes_scale [OF assms] maxOverMembers_scale [OF assms]
      scaleNodeResult_def scaleMaxForces_def scaleMax_def)

lemma accumulate_case:
  "fold (\<lambda>i P. P[i := P ! i + f * caseP ! i]) [0..<n] (replicate n (0::real))
     = map (\<lambda>k. f * caseP ! k) [0..<n]"
proof (rule nth_equalityI)
  show "length (fold (\<lambda>i P. P[i := P ! i + f * caseP ! i]) [0..<n] (replicate n (0::real)))
          = length (map (\<lambda>k. f * caseP ! k) [0..<n])"
    using fold_pointwise_length [where g = "\<lambda>i v. v + f * caseP ! i" and r = "replicate n 0" and n = n]
    by simp
next
  fix k assume "k < length (fold (\<lambda>i P. P[i := P ! i + f * caseP ! i]) [0..<n] (replicate n (0::real)))"
  then have k: "k < n"
    using fold_pointwise_length [where g = "\<lambda>i v. v + f * caseP ! i" and r = "replicate n 0" and n = n]
    by simp
  then show "fold (\<lambda>i P. P[i := P ! i + f * caseP ! i]) [0..<n] (replicate n (0::real)) ! k
          = map (\<lambda>k. f * caseP ! k) [0..<n] ! k"
    using fold_pointwise_nth [where g = "\<lambda>i v. v + f * caseP ! i" and r = "replicate n 0" and n = n and k = k]
    by simp
qed

lemma combinedLoadVector_single:
  assumes "combo_factors combo = [(caseName, f)]"
  shows "combinedLoadVector an combo =
     (case find (\<lambda>lc. lc_name lc = caseName) (loadCases (an_model an)) of
        None \<Rightarrow> Inr (replicate (numDOF an) 0)
      | Some loadCase \<Rightarrow>
          (case assembleLoadVector an loadCase of
             Inl e \<Rightarrow> Inl e
           | Inr caseP \<Rightarrow> Inr (map (\<lambda>k. f * caseP ! k) [0..<numDOF an])))"
  by (simp add: combinedLoadVector_def assms addCase_def accumulate_case
      split: option.splits sum.splits)

text \<open>The load vectors of two combinations of the same single case with factors 1 and 2.\<close>

lemma combinedLoadVector_double:
  assumes "combo_factors combo1 = [(caseName, 1)]" and "combo_factors combo2 = [(caseName, 2)]"
  shows "combinedLoadVector an combo2 = map_sum id (map ((*) 2)) (combinedLoadVector an combo1)"
    and "combinedLoadVector an combo1 = Inr P \<Longrightarrow> length P = numDOF an"
  unfolding combinedLoadVector_single [OF assms(1)] combinedLoadVector_single [OF assms(2)]
  by (auto split: option.splits sum.splits)

lemma extractVector_scale:
  assumes "\<forall>i\<in>set idx. i < length v"
  shows "extractVector (map ((*) c) v) idx = map ((*) (c::real)) (extractVector v idx)"
  using assms by (simp add: extractVector_def)

lemma setVector_scale:
  assumes "length idx \<le> length vals"
  shows "setVector (map ((*) c) v) idx (map ((*) c) vals) = map ((*) (c::real)) (setVector v idx vals)"
proof -
  have "fold (\<lambda>i v. v[idx ! i := map ((*) c) vals ! i]) is (map ((*) c) v)
          = map ((*) c) (fold (\<lambda>i v. v[idx ! i := vals ! i]) is v)"
    if "\<forall>i\<in>set is. i < length vals" for "is" v
    using that by (induction "is" arbitrary: v) (simp_all add: map_update [symmetric])
  from this [of "[0..<length idx]" v] assms show ?thesis
    by (simp add: setVector_def)
qed

lemma multiplyVector_scale:
  "multiplyVector K (map ((*) c) D) = map_sum id (map ((*) (c::real))) (multiplyVector K D)"
proof (cases "cols K = length D")
  case True
  have "sum_loop (\<lambda>j. get K i j * map ((*) c) D ! j) (cols K)
          = c * sum_loop (\<lambda>j. get K i j * D ! j) (cols K)" for i
    unfolding sum_loop_sum sum_distrib_left
    by (intro sum.cong refl) (simp add: True)
  then show ?thesis
    using True by (simp add: multiplyVector_def)
next
  case False
  then show ?thesis by (simp add: multiplyVector_def)
qed

lemma subtract_scale:
  assumes "n \<le> length P" and "n \<le> length r"
  shows "fold (\<lambda>i r. r[i := r ! i - map ((*) c) P ! i]) [0..<n] (map ((*) c) r)
           = map ((*) (c::real)) (fold (\<lambda>i r. r[i := r ! i - P ! i]) [0..<n] r)"
proof -
  have "fold (\<lambda>i r. r[i := r ! i - map ((*) c) P ! i]) is (map ((*) c) r)
          = map ((*) c) (fold (\<lambda>i r. r[i := r ! i - P ! i]) is r)"
    if "\<forall>i\<in>set is. i < length P \<and> i < length r" for "is" r
    using that
    by (induction "is" arbitrary: r)
      (simp_all add: map_update [symmetric] right_diff_distrib [symmetric])
  from this [of "[0..<n]" r] assms show ?thesis by simp
qed

lemma solve_length:
  assumes "solve A b = Inr x"
  shows "length x = length b" and "rows A = length b"
proof -
  from assms have dims: "rows A = cols A" "rows A = length b"
    by (auto simp: solve_def split: if_splits)
  from assms obtain U y where el: "foldE (eliminationStep (rows A)) [0..<rows A - 1] (clone A, b) = Inr (U, y)"
    and x: "x = backSubstitute U (rows A) y"
    using dims by (auto simp: solve_def bindE_eq_Inr Let_def split: if_splits)
  from foldE_eliminationStep_length [OF el] x show "length x = length b" by simp
  show "rows A = length b" by (rule dims(2))
qed

lemma freeDOF_bound:
  assumes "new_Analyzer model = Inr an"
  shows "\<forall>d\<in>set (freeDOF an). d < numDOF an"
proof -
  have "numDOF an = length (nodes model) * 6"
    using new_Analyzer_valid [OF assms] by (simp add: analyzerValid_def)
  then show ?thesis
    unfolding freeDOF_eq [OF assms] by simp
qed

lemma solveSystem_double:
  assumes an: "new_Analyzer model = Inr an"
    and c1: "combo_factors combo1 = [(caseName, 1)]"
    and c2: "combo_factors combo2 = [(caseName, 2)]"
  shows "solveSystem an combo2 = map_sum id (scaleSolution 2) (solveSystem an combo1)"
proof -
  note valid = new_Analyzer_valid(1) [OF an]
  from assemble_symmetric [OF valid] obtain K where
    K: "assembleGlobalStiffnessMatrix an = Inr K" and rows: "rows K = numDOF an"
    by (auto simp: symmetricOfSize_def)
  note P2 = combinedLoadVector_double [OF c1 c2, of an]
  show ?thesis
  proof (cases "combinedLoadVector an combo1")
    case (Inl e)
    then show ?thesis using P2(1) by (simp add: solveSystem_def K)
  next
    case (Inr P)
    have lenP: "length P = numDOF an" using P2(2) [OF Inr] .
    have P2': "combinedLoadVector an combo2 = Inr (map ((*) 2) P)"
      using P2(1) Inr by simp
    let ?free = "freeDOF an"
    let ?K11 = "subMatrix K ?free ?free"
    have ev: "extractVector (map ((*) 2) P) ?free = map ((*) 2) (extractVector P ?free)"
      using freeDOF_bound [OF an] lenP by (intro extractVector_scale) simp
    have sv: "solve ?K11 (map ((*) 2) (extractVector P ?free))
                = map_sum id (map ((*) 2)) (solve ?K11 (extractVector P ?free))"
      by (rule solve_scale)
    show ?thesis
    proof (cases "solve ?K11 (extractVector P ?free)")
      case (Inl e)
      then show ?thesis
        using sv by (simp add: solveSystem_def K Inr P2' ev Let_def)
    next
      case D1: (Inr D1)
      have "length D1 = length ?free"
        using solve_length(1) [OF D1] by (simp add: extractVector_def)
      then have "setVector (map ((*) 2) (replicate (numDOF an) 0)) ?free (map ((*) 2) D1)
               = map ((*) 2) (setVector (replicate (numDOF an) 0) ?free D1)"
        by (intro setVector_scale) simp
      then have D: "setVector (replicate (numDOF an) 0) ?free (map ((*) 2) D1)
               = map ((*) 2) (setVector (replicate (numDOF an) 0) ?free D1)"
        by simp
      let ?D = "setVector (replicate (numDOF an) 0) ?free D1"
      have mv: "multiplyVector K (map ((*) 2) ?D) = map_sum id (map ((*) 2)) (multiplyVector K ?D)"
        by (rule multiplyVector_scale)
      show ?thesis
      proof (cases "multiplyVector K ?D")
        case (Inl e)
        then show ?thesis
          using sv D1 mv by (simp add: solveSystem_def K Inr P2' ev Let_def D)
      next
        case KD: (Inr KD)
        have "length KD = numDOF an"
          using multiplyVector_Inr(2) [OF KD] rows by simp
        then have "fold (\<lambda>i r. r[i := r ! i - map ((*) 2) P ! i]) [0..<numDOF an] (map ((*) 2) KD)
              = map ((*) 2) (fold (\<lambda>i r. r[i := r ! i - P ! i]) [0..<numDOF an] KD)"
          using lenP by (intro subtract_scale) simp_all
        then show ?thesis
          using sv D1 mv KD
          by (simp add: solveSystem_def K Inr P2' ev Let_def D scaleSolution_def)
      qed
    qed
  qed
qed

lemma solveSystem_lengths:
  assumes an: "analyzerValid an" and sol: "solveSystem an combo = Inr sol"
  shows "length (sol_D sol) = numDOF an" and "length (sol_reactions sol) = numDOF an"
proof -
  from assemble_symmetric [OF an] obtain K where
    K: "assembleGlobalStiffnessMatrix an = Inr K" and rows: "rows K = numDOF an"
    by (auto simp: symmetricOfSize_def)
  from solveSystem_Inr [OF sol] K rows
  show "length (sol_D sol) = numDOF an" and "length (sol_reactions sol) = numDOF an"
    by auto
qed

lemma extractNodeResults_scale:
  assumes "numDOF an = length (nodes (an_model an)) * 6"
    and "length D = numDOF an" and "length R = numDOF an"
  shows "extractNodeResults an (map ((*) c) D) (map ((*) c) R)
           = map (scaleNodeResult c) (extractNodeResults an D R)"
proof -
  have "t * 6 + k < length D \<and> t * 6 + k < length R"
    if "t < length (nodes (an_model an))" "k < 6" for t k
    using that assms by simp
  from this [of _ 0] this [of _ 1] this [of _ 2] this [of _ 3] this [of _ 4] this [of _ 5]
  show ?thesis
    unfolding extractNodeResults_def
    by (simp add: scaleNodeResult_def scaleDOF_def Let_def)
qed

lemma localEndForces_scale:
  assumes "length d = 12"
  shows "localEndForces kL T (map ((*) c) d) p = c * localEndForces kL T d p"
proof -
  have "(\<Sum>r<12. get T q r * map ((*) c) d ! r) = c * (\<Sum>r<12. get T q r * d ! r)" for q
    unfolding sum_distrib_left by (intro sum.cong refl) (simp add: assms)
  then show ?thesis
    by (simp add: localEndForces_def sum_distrib_left mult_ac)
qed

lemma elementD_scale:
  assumes "i * 6 + 5 < length D" and "j * 6 + 5 < length D"
  shows "elementD (map ((*) c) D) i j = map ((*) (c::real)) (elementD D i j)"
  using assms by (simp add: elementD_def)

lemma memberResultFrom_scale:
  assumes "0 < c"
  shows "memberResultFrom e (map (samplePoint e (\<lambda>p. c * f p) n) xs)
           = scaleMemberResult c (memberResultFrom e (map (samplePoint e f n) xs))"
proof -
  let ?toForces = "\<lambda>fp. \<lparr>mf_x = fp_x fp,
                       mf_axial = fp_forces fp ! 0,
                       mf_shearY = fp_forces fp ! 1,
                       mf_shearZ = fp_forces fp ! 2,
                       mf_torsion = fp_forces fp ! 3,
                       mf_momentY = fp_forces fp ! 4,
                       mf_momentZ = fp_forces fp ! 5\<rparr>"
  have pt: "?toForces (samplePoint e (\<lambda>p. c * f p) n i) = scaleForces c (?toForces (samplePoint e f n i))"
    for i
    by (simp add: samplePoint_def upt_6 scaleForces_def algebra_simps)
  define F where "F = map ?toForces (map (samplePoint e f n) xs)"
  have forces: "map ?toForces (map (samplePoint e (\<lambda>p. c * f p) n) xs) = map (scaleForces c) F"
    unfolding F_def by (simp only: map_map comp_def pt)
  have keys: "mf_axial (scaleForces c g) = c * mf_axial g" "mf_shearY (scaleForces c g) = c * mf_shearY g"
    "mf_shearZ (scaleForces c g) = c * mf_shearZ g" "mf_momentY (scaleForces c g) = c * mf_momentY g"
    "mf_momentZ (scaleForces c g) = c * mf_momentZ g" for g
    by (simp_all add: scaleForces_def)
  show ?thesis
    unfolding memberResultFrom_def Let_def forces F_def [symmetric]
    by (simp add: scaleMemberResult_def scaleMaxForces_def
        findMax_scale [of c mf_axial, OF assms keys(1)]
        findMax_scale [of c mf_shearY, OF assms keys(2)]
        findMax_scale [of c mf_shearZ, OF assms keys(3)]
        findMax_scale [of c mf_momentY, OF assms keys(4)]
        findMax_scale [of c mf_momentZ, OF assms keys(5)])
qed

lemma memberResultPure_scale:
  assumes "analyzerValid an" and "e \<in> set (elements an)" and "length D = numDOF an" and "0 < c"
  shows "memberResultPure an (map ((*) c) D) e = scaleMemberResult c (memberResultPure an D e)"
proof -
  from dofMapOf_Inr [OF assms(1,2)] obtain i j where
    ij: "i < length (nodes (an_model an))" "j < length (nodes (an_model an))"
      "nodeIndexMap an (node_id (el_iNode e)) = Some i"
      "nodeIndexMap an (node_id (el_jNode e)) = Some j"
    by blast
  have n: "numDOF an = length (nodes (an_model an)) * 6"
    using assms(1) by (simp add: analyzerValid_def)
  have "i * 6 + 5 < length D" "j * 6 + 5 < length D"
    using ij(1,2) assms(3) n by simp_all
  then have eD: "elementD (map ((*) c) D) i j = map ((*) c) (elementD D i j)"
    by (rule elementD_scale)
  have len: "length (elementD D i j) = 12" by (simp add: elementD_def)
  have lef: "localEndForces kL T (map ((*) c) (elementD D i j))
               = (\<lambda>p. c * localEndForces kL T (elementD D i j) p)" for kL T
    by (rule ext) (rule localEndForces_scale [OF len])
  show ?thesis
    unfolding memberResultPure_def ij option.sel eD lef
    by (rule memberResultFrom_scale [OF assms(4)])
qed

text \<open>
  Claim C7. For two combinations of a model that reference the same single load case,
  one with factor 1 and one with factor 2, the result of analysing the second is the
  result of analysing the first with every displacement, reaction and sampled member force
  component and every extremum value doubled (\<open>scaleResult 2\<close>), under the name of the
  second combination.
\<close>

theorem combination_linearity:
  assumes "new_Analyzer model = Inr an"
    and "find (\<lambda>c. combo_name c = name1) (loadCombinations model) = Some combo1"
    and "find (\<lambda>c. combo_name c = name2) (loadCombinations model) = Some combo2"
    and "combo_factors combo1 = [(caseName, 1)]"
    and "combo_factors combo2 = [(caseName, 2)]"
  shows "fst (analyze an name2) = (scaleResult 2 (fst (analyze an name1)))\<lparr>res_loadCase := name2\<rparr>"
proof -
  note valid = new_Analyzer_valid [OF assms(1)]
  have n: "numDOF an = length (nodes (an_model an)) * 6"
    using valid(1) by (simp add: analyzerValid_def)
  have f1: "find (\<lambda>c. combo_name c = name1) (loadCombinations (an_model an)) = Some combo1"
    and f2: "find (\<lambda>c. combo_name c = name2) (loadCombinations (an_model an)) = Some combo2"
    using assms(2,3) valid(2) by simp_all
  note dbl = solveSystem_double [OF assms(1,4,5)]
  show ?thesis
  proof (cases "solveSystem an combo1")
    case (Inl e)
    then show ?thesis
      unfolding analyze_found [OF valid(1) f1] analyze_found [OF valid(1) f2] dbl
      by (simp add: failedResult_def scaleResult_def scaleSummary_def emptySummary_def
          scaleNodeExtremum_def scaleMemberExtremum_def)
  next
    case (Inr sol)
    note len = solveSystem_lengths [OF valid(1) Inr]
    have nodes: "extractNodeResults an (map ((*) 2) (sol_D sol)) (map ((*) 2) (sol_reactions sol))
          = map (scaleNodeResult 2) (extractNodeResults an (sol_D sol) (sol_reactions sol))"
      by (rule extractNodeResults_scale [OF n len])
    have members: "map (memberResultPure an (map ((*) 2) (sol_D sol))) (elements an)
          = map (scaleMemberResult 2) (map (memberResultPure an (sol_D sol)) (elements an))"
      using memberResultPure_scale [OF valid(1) _ len(1), of _ 2] by simp
    show ?thesis
      unfolding analyze_found [OF valid(1) f1] analyze_found [OF valid(1) f2] dbl Inr
      by (simp add: scaleSolution_def nodes members scaleResult_def computeSummary_scale
          del: map_map)
  qed
qed

theorem combination_linearity_witness:
  "new_Analyzer exModel = Inr exAnalyzer
   \<and> find (\<lambda>c. combo_name c = ''C1'') (loadCombinations exModel) = Some (exCombination 1)
   \<and> find (\<lambda>c. combo_name c = ''C2'') (loadCombinations exModel)
       = Some ((exCombination 2)\<lparr>combo_name := ''C2''\<rparr>)
   \<and> combo_factors (exCombination 1) = [(''A'', 1)]
   \<and> combo_factors ((exCombination 2)\<lparr>combo_name := ''C2''\<rparr>) = [(''A'', 2)]
   \<and> fst (analyze exAnalyzer ''C2'')
       = (scaleResult 2 (fst (analyze exAnalyzer ''C1'')))\<lparr>res_loadCase := ''C2''\<rparr>"
proof -
  have 1: "find (\<lambda>c. combo_name c = ''C1'') (loadCombinations exModel) = Some (exCombination 1)"
    by (simp add: exModel_def exCombination_def)
  have 2: "find (\<lambda>c. combo_name c = ''C2'') (loadCombinations exModel)
       = Some ((exCombination 2)\<lparr>combo_name := ''C2''\<rparr>)"
    by (simp add: exModel_def exCombination_def)
  have 3: "combo_factors (exCombination 1) = [(''A'', 1)]"
    by (simp add: exCombination_def)
  have 4: "combo_factors ((exCombination 2)\<lparr>combo_name := ''C2''\<rparr>) = [(''A'', 2)]"
    by (simp add: exCombination_def)
  from combination_linearity [OF ex_new_Analyzer 1 2 3 4] ex_new_Analyzer 1 2 3 4
  show ?thesis by simp
qed


section \<open>Facts about the elimination\<close>

lemma squareOfSize_set_m [simp]: "squareOfSize n A \<Longrightarrow> squareOfSize n (set_m A i j v)"
  by (simp add: squareOfSize_def)

lemma get_set_m_square:
  "squareOfSize n A \<Longrightarrow> i < n \<Longrightarrow> j < n \<Longrightarrow>
   get (set_m A i j v) r c = (if r = i \<and> c = j then v else get A r c)"
  by (simp add: squareOfSize_def get_set_m_wf)

lemma get_set_set_m_square:
  "squareOfSize n A \<Longrightarrow> i < n \<Longrightarrow> i' < n \<Longrightarrow> j < n \<Longrightarrow>
   get (set_m (set_m A i j v) i' j w) r c
     = (if r = i' \<and> c = j then w else if r = i \<and> c = j then v else get A r c)"
  by (simp add: squareOfSize_def get_set_m_wf)

lemma swapRows_prefix:
  assumes "squareOfSize n A" and "k < n" and "m < n" and "k \<noteq> m" and "j0 \<le> n"
  shows "squareOfSize n (fold (\<lambda>j A. let temp = get A k j in
            set_m (set_m A k j (get A m j)) m j temp) [0..<j0] A)
       \<and> (\<forall>r c. get (fold (\<lambda>j A. let temp = get A k j in
            set_m (set_m A k j (get A m j)) m j temp) [0..<j0] A) r c
            = (if c < j0 then swappedEntry A k m r c else get A r c))"
  using assms(5)
proof (induction j0)
  case 0
  then show ?case using assms(1) by simp
next
  case (Suc j)
  define B where "B = fold (\<lambda>j A. let temp = get A k j in
            set_m (set_m A k j (get A m j)) m j temp) [0..<j] A"
  from Suc have B: "squareOfSize n B"
    and gB: "\<And>r c. get B r c = (if c < j then swappedEntry A k m r c else get A r c)"
    and j: "j < n"
    by (simp_all add: B_def)
  have step: "fold (\<lambda>j A. let temp = get A k j in
            set_m (set_m A k j (get A m j)) m j temp) [0..<Suc j] A
        = set_m (set_m B k j (get B m j)) m j (get B k j)"
    by (simp add: B_def Let_def)
  have sq: "squareOfSize n (set_m (set_m B k j (get B m j)) m j (get B k j))"
    using B by simp
  have "get (set_m (set_m B k j (get B m j)) m j (get B k j)) r c
      = (if c < Suc j then swappedEntry A k m r c else get A r c)" for r c
  proof -
    have "get (set_m (set_m B k j (get B m j)) m j (get B k j)) r c
        = (if r = m \<and> c = j then get B k j
           else if r = k \<and> c = j then get B m j else get B r c)"
      using B assms(2,3) j by (rule get_set_set_m_square)
    also have "\<dots> = (if c < Suc j then swappedEntry A k m r c else get A r c)"
      using assms(4) by (auto simp: gB swappedEntry_def less_Suc_eq)
    finally show ?thesis .
  qed
  with sq show ?case unfolding step by blast
qed

lemma swapRows_get:
  assumes "squareOfSize n A" and "k < n" and "m < n" and "k \<noteq> m"
  shows "squareOfSize n (swapRows A n k m)"
    and "c < n \<Longrightarrow> get (swapRows A n k m) r c = swappedEntry A k m r c"
  using swapRows_prefix [OF assms, of n] by (simp_all add: swapRows_def)

lemma eliminate_columns_prefix:
  assumes "squareOfSize n A" and "i < n" and "k < n" and "i \<noteq> k" and "j0 \<le> n"
  shows "squareOfSize n (fold (\<lambda>j A. set_m A i j (get A i j - f * get A k j)) [Suc k..<j0] A)
       \<and> (\<forall>r c. get (fold (\<lambda>j A. set_m A i j (get A i j - f * get A k j)) [Suc k..<j0] A) r c
            = (if r = i \<and> k < c \<and> c < j0 then get A i c - f * get A k c else get A r c))"
  using assms(5)
proof (induction j0)
  case 0
  then show ?case using assms(1) by simp
next
  case (Suc j)
  show ?case
  proof (cases "Suc k \<le> j")
    case False
    then have e: "[Suc k..<Suc j] = []" by simp
    show ?thesis unfolding e using False assms(1) by auto
  next
    case True
    define B where "B = fold (\<lambda>j A. set_m A i j (get A i j - f * get A k j)) [Suc k..<j] A"
    from Suc have B: "squareOfSize n B"
      and gB: "\<And>r c. get B r c
                 = (if r = i \<and> k < c \<and> c < j then get A i c - f * get A k c else get A r c)"
      and j: "j < n"
      by (simp_all add: B_def)
    have step: "fold (\<lambda>j A. set_m A i j (get A i j - f * get A k j)) [Suc k..<Suc j] A
          = set_m B i j (get B i j - f * get B k j)"
      using True by (simp add: B_def)
    have sq: "squareOfSize n (set_m B i j (get B i j - f * get B k j))"
      using B by simp
    have "get (set_m B i j (get B i j - f * get B k j)) r c
        = (if r = i \<and> k < c \<and> c < Suc j then get A i c - f * get A k c else get A r c)" for r c
    proof -
      have "get (set_m B i j (get B i j - f * get B k j)) r c
          = (if r = i \<and> c = j then get B i j - f * get B k j else get B r c)"
        using B assms(2) j by (rule get_set_m_square)
      also have "\<dots> = (if r = i \<and> k < c \<and> c < Suc j then get A i c - f * get A k c else get A r c)"
        using assms(4) True by (auto simp: gB less_Suc_eq)
      finally show ?thesis .
    qed
    with sq show ?thesis unfolding step by blast
  qed
qed

lemma eliminateRow_get:
  assumes "squareOfSize n A" and "i < n" and "k < n" and "i \<noteq> k"
  shows "squareOfSize n (fst (eliminateRow n k akk i (A, x)))"
    and "c < n \<Longrightarrow> get (fst (eliminateRow n k akk i (A, x))) r c
           = (if r = i then eliminatedEntry A k akk r c else get A r c)"
proof -
  define f where "f = get A i k / akk"
  define A1 where "A1 = set_m A i k f"
  have A1: "squareOfSize n A1" using assms(1) by (simp add: A1_def)
  have gA1: "get A1 r c = (if r = i \<and> c = k then f else get A r c)" for r c
    unfolding A1_def using assms(1,2,3) by (rule get_set_m_square)
  have fst_eq: "fst (eliminateRow n k akk i (A, x))
      = fold (\<lambda>j A. set_m A i j (get A i j - f * get A k j)) [Suc k..<n] A1"
    by (simp add: eliminateRow_def Let_def f_def A1_def)
  from eliminate_columns_prefix [OF A1 assms(2,3,4), of n f]
  show "squareOfSize n (fst (eliminateRow n k akk i (A, x)))"
    unfolding fst_eq by simp
  assume "c < n"
  with eliminate_columns_prefix [OF A1 assms(2,3,4), of n f] assms(4)
  show "get (fst (eliminateRow n k akk i (A, x))) r c
           = (if r = i then eliminatedEntry A k akk r c else get A r c)"
    unfolding fst_eq by (auto simp: gA1 eliminatedEntry_def f_def)
qed

lemma fold_eliminateRow_get:
  assumes "squareOfSize n A1" and "k < n" and "length x1 = n" and "i0 \<le> n"
  shows "squareOfSize n (fst (fold (eliminateRow n k akk) [Suc k..<i0] (A1, x1)))
       \<and> (\<forall>r c. c < n \<longrightarrow> get (fst (fold (eliminateRow n k akk) [Suc k..<i0] (A1, x1))) r c
              = (if k < r \<and> r < i0 then eliminatedEntry A1 k akk r c else get A1 r c))
       \<and> length (snd (fold (eliminateRow n k akk) [Suc k..<i0] (A1, x1))) = n
       \<and> (\<forall>r<n. snd (fold (eliminateRow n k akk) [Suc k..<i0] (A1, x1)) ! r
              = (if k < r \<and> r < i0 then x1 ! r - get A1 r k / akk * x1 ! k else x1 ! r))"
  using assms(4)
proof (induction i0)
  case 0
  then show ?case using assms(1,3) by simp
next
  case (Suc i)
  show ?case
  proof (cases "Suc k \<le> i")
    case False
    then have e: "[Suc k..<Suc i] = []" by simp
    show ?thesis unfolding e using False assms(1,3) by auto
  next
    case True
    define B where "B = fst (fold (eliminateRow n k akk) [Suc k..<i] (A1, x1))"
    define x where "x = snd (fold (eliminateRow n k akk) [Suc k..<i] (A1, x1))"
    have s: "fold (eliminateRow n k akk) [Suc k..<i] (A1, x1) = (B, x)"
      by (simp add: B_def x_def)
    from Suc have B: "squareOfSize n B"
      and gB: "\<And>r c. c < n \<Longrightarrow>
          get B r c = (if k < r \<and> r < i then eliminatedEntry A1 k akk r c else get A1 r c)"
      and lx: "length x = n"
      and gx: "\<And>r. r < n \<Longrightarrow>
          x ! r = (if k < r \<and> r < i then x1 ! r - get A1 r k / akk * x1 ! k else x1 ! r)"
      and i: "i < n"
      by (simp_all add: B_def x_def)
    from True have ik: "i \<noteq> k" by simp
    have step: "fold (eliminateRow n k akk) [Suc k..<Suc i] (A1, x1) = eliminateRow n k akk i (B, x)"
      using True by (simp add: s)
    have rowi: "eliminatedEntry B k akk i c = eliminatedEntry A1 k akk i c" if "c < n" for c
      using that assms(2) by (simp add: eliminatedEntry_def gB)
    have 1: "squareOfSize n (fst (eliminateRow n k akk i (B, x)))"
      using B i assms(2) ik by (rule eliminateRow_get(1))
    have 2: "get (fst (eliminateRow n k akk i (B, x))) r c
        = (if k < r \<and> r < Suc i then eliminatedEntry A1 k akk r c else get A1 r c)"
      if "c < n" for r c
    proof -
      have "get (fst (eliminateRow n k akk i (B, x))) r c
          = (if r = i then eliminatedEntry B k akk r c else get B r c)"
        using B i assms(2) ik that by (rule eliminateRow_get(2))
      also have "\<dots> = (if k < r \<and> r < Suc i then eliminatedEntry A1 k akk r c else get A1 r c)"
        using True that by (auto simp: rowi gB less_Suc_eq)
      finally show ?thesis .
    qed
    have sx: "snd (eliminateRow n k akk i (B, x)) = x[i := x ! i - get B i k / akk * x ! k]"
      by (rule eliminateRow_fst_snd(1))
    have 3: "length (snd (eliminateRow n k akk i (B, x))) = n"
      by (simp add: lx)
    have 4: "snd (eliminateRow n k akk i (B, x)) ! r
        = (if k < r \<and> r < Suc i then x1 ! r - get A1 r k / akk * x1 ! k else x1 ! r)"
      if "r < n" for r
    proof (cases "r = i")
      case True
      then have "snd (eliminateRow n k akk i (B, x)) ! r = x ! i - get B i k / akk * x ! k"
        unfolding sx using i lx by simp
      also have "\<dots> = x1 ! i - get A1 i k / akk * x1 ! k"
        using i assms(2) by (simp add: gx gB)
      finally show ?thesis using True \<open>Suc k \<le> i\<close> by simp
    next
      case False
      then have "snd (eliminateRow n k akk i (B, x)) ! r = x ! r"
        unfolding sx by simp
      then show ?thesis using False that by (auto simp: gx less_Suc_eq)
    qed
    from 1 2 3 4 show ?thesis unfolding step by blast
  qed
qed

lemma swapEntries_nth:
  assumes "k < length x" and "m < length x" and "r < length x"
  shows "swapEntries x k m ! r = x ! swapIndex k m r"
  using assms by (auto simp: swapEntries_def Let_def swapIndex_def nth_list_update)

lemma swappedEntry_swapIndex: "swappedEntry A k m r c = get A (swapIndex k m r) c"
  by (simp add: swappedEntry_def swapIndex_def)

lemma swapIndex_less: "k < n \<Longrightarrow> m < n \<Longrightarrow> r < n \<Longrightarrow> swapIndex k m r < n"
  by (simp add: swapIndex_def)

lemma swapIndex_involution [simp]: "swapIndex k m (swapIndex k m r) = r"
  by (simp add: swapIndex_def)

lemma solvesSystem_swap:
  assumes "k < n" and "m < n"
    and M': "\<And>r c. r < n \<Longrightarrow> c < n \<Longrightarrow> M' r c = M (swapIndex k m r) c"
    and q': "\<And>r. r < n \<Longrightarrow> q' r = q (swapIndex k m r)"
  shows "solvesSystem n M' q' y \<longleftrightarrow> solvesSystem n M q y"
proof
  assume a: "solvesSystem n M' q' y"
  show "solvesSystem n M q y"
    unfolding solvesSystem_def
  proof (intro allI impI)
    fix r assume r: "r < n"
    then have s: "swapIndex k m r < n" using assms(1,2) by (simp add: swapIndex_less)
    from a s have "(\<Sum>c<n. M' (swapIndex k m r) c * y c) = q' (swapIndex k m r)"
      by (simp add: solvesSystem_def)
    moreover have "(\<Sum>c<n. M' (swapIndex k m r) c * y c) = (\<Sum>c<n. M r c * y c)"
      by (rule sum.cong) (simp_all add: M' s)
    ultimately show "(\<Sum>c<n. M r c * y c) = q r" by (simp add: q' s)
  qed
next
  assume a: "solvesSystem n M q y"
  show "solvesSystem n M' q' y"
    unfolding solvesSystem_def
  proof (intro allI impI)
    fix r assume r: "r < n"
    then have s: "swapIndex k m r < n" using assms(1,2) by (simp add: swapIndex_less)
    from a s have "(\<Sum>c<n. M (swapIndex k m r) c * y c) = q (swapIndex k m r)"
      by (simp add: solvesSystem_def)
    moreover have "(\<Sum>c<n. M' r c * y c) = (\<Sum>c<n. M (swapIndex k m r) c * y c)"
      by (rule sum.cong) (simp_all add: M' r)
    ultimately show "(\<Sum>c<n. M' r c * y c) = q' r" by (simp add: q' r)
  qed
qed

lemma solvesSystem_eliminate:
  assumes "k < n"
    and M': "\<And>r c. r < n \<Longrightarrow> c < n \<Longrightarrow> M' r c = (if k < r then M r c - f r * M k c else M r c)"
    and q': "\<And>r. r < n \<Longrightarrow> q' r = (if k < r then q r - f r * q k else q r)"
  shows "solvesSystem n M' q' y \<longleftrightarrow> solvesSystem n M q y"
proof -
  have row: "(\<Sum>c<n. M' r c * y c)
      = (if k < r then (\<Sum>c<n. M r c * y c) - f r * (\<Sum>c<n. M k c * y c) else (\<Sum>c<n. M r c * y c))"
    if "r < n" for r
  proof (cases "k < r")
    case True
    have "(\<Sum>c<n. M' r c * y c) = (\<Sum>c<n. M r c * y c - f r * (M k c * y c))"
      by (rule sum.cong) (simp_all add: M' that True algebra_simps)
    also have "\<dots> = (\<Sum>c<n. M r c * y c) - f r * (\<Sum>c<n. M k c * y c)"
      by (simp add: sum_subtractf sum_distrib_left)
    finally show ?thesis using True by simp
  next
    case False
    have "(\<Sum>c<n. M' r c * y c) = (\<Sum>c<n. M r c * y c)"
      by (rule sum.cong) (simp_all add: M' that False)
    then show ?thesis using False by simp
  qed
  show ?thesis
  proof
    assume a: "solvesSystem n M' q' y"
    then have k: "(\<Sum>c<n. M k c * y c) = q k"
      using row [OF assms(1)] q' [OF assms(1)] assms(1) by (simp add: solvesSystem_def)
    show "solvesSystem n M q y"
      unfolding solvesSystem_def
    proof (intro allI impI)
      fix r assume r: "r < n"
      from a r have "(\<Sum>c<n. M' r c * y c) = q' r" by (simp add: solvesSystem_def)
      then show "(\<Sum>c<n. M r c * y c) = q r"
        unfolding row [OF r] q' [OF r] k by (simp split: if_splits)
    qed
  next
    assume a: "solvesSystem n M q y"
    show "solvesSystem n M' q' y"
      unfolding solvesSystem_def
    proof (intro allI impI)
      fix r assume r: "r < n"
      from a r assms(1) have "(\<Sum>c<n. M r c * y c) = q r" "(\<Sum>c<n. M k c * y c) = q k"
        by (simp_all add: solvesSystem_def)
      then show "(\<Sum>c<n. M' r c * y c) = q' r"
        unfolding row [OF r] q' [OF r] by simp
    qed
  qed
qed


lemma foldE_snoc: "foldE f (xs @ [x]) s = bindE (foldE f xs s) (f x)"
proof -
  have "foldE f [x] = f x" by (intro ext) (simp split: sum.splits)
  then show ?thesis by (simp add: foldE_append)
qed

lemma eliminationStep_Inr:
  assumes step: "eliminationStep n k (A, x) = Inr (A', x')"
    and A: "squareOfSize n A" and k: "k < n" and x: "length x = n"
  shows "squareOfSize n A'" and "length x' = n"
    and "solvesSystem n (upperFrom (Suc k) A') ((!) x') y
           \<longleftrightarrow> solvesSystem n (upperFrom k A) ((!) x) y"
    and "solvesSystem n (upperFrom (Suc k) A') (\<lambda>_. 0) v
           \<longleftrightarrow> solvesSystem n (upperFrom k A) (\<lambda>_. 0) v"
    and "get A' k k \<noteq> 0" and "\<And>r. r < k \<Longrightarrow> get A' r r = get A r r"
proof -
  let ?m = "snd (findPivot A n k)"
  from findPivot_range [OF k, of A] have m: "k \<le> ?m" "?m < n" by simp_all
  define A1 where "A1 = (if ?m \<noteq> k then swapRows A n k ?m else A)"
  define x1 where "x1 = (if ?m \<noteq> k then swapEntries x k ?m else x)"
  define akk where "akk = get A1 k k"
  have eq: "eliminationStep n k (A, x)
      = (if \<bar>akk\<bar> < 1 / 10 ^ 12 then Inl Singular
         else Inr (fold (eliminateRow n k akk) [Suc k..<n] (A1, x1)))"
    by (simp add: eliminationStep_def Let_def A1_def x1_def akk_def)
  with step have akk: "\<not> \<bar>akk\<bar> < 1 / 10 ^ 12"
    and res: "fold (eliminateRow n k akk) [Suc k..<n] (A1, x1) = (A', x')"
    by (simp_all split: if_splits)
  from akk have akk0: "akk \<noteq> 0" by auto
  have A1: "squareOfSize n A1"
    using swapRows_get(1) [OF A k m(2)] A by (simp add: A1_def)
  have gA1: "get A1 r c = get A (swapIndex k ?m r) c" if "c < n" for r c
  proof (cases "?m = k")
    case True
    then show ?thesis by (simp add: A1_def swapIndex_def)
  next
    case False
    then have "k \<noteq> ?m" by simp
    from swapRows_get(2) [OF A k m(2) this that, of r] False show ?thesis
      by (simp add: A1_def swappedEntry_swapIndex)
  qed
  have lx1: "length x1 = n" by (simp add: x1_def x)
  have gx1: "x1 ! r = x ! swapIndex k ?m r" if "r < n" for r
  proof (cases "?m = k")
    case True
    then show ?thesis by (simp add: x1_def swapIndex_def)
  next
    case False
    with swapEntries_nth [of k x ?m r] k m(2) that x show ?thesis
      by (simp add: x1_def)
  qed
  from fold_eliminateRow_get [OF A1 k lx1, of n akk] res
  have A': "squareOfSize n A'"
    and gA': "\<And>r c. c < n \<Longrightarrow> r < n \<Longrightarrow>
        get A' r c = (if k < r then eliminatedEntry A1 k akk r c else get A1 r c)"
    and lx': "length x' = n"
    and gx': "\<And>r. r < n \<Longrightarrow>
        x' ! r = (if k < r then x1 ! r - get A1 r k / akk * x1 ! k else x1 ! r)"
    by simp_all
  show "squareOfSize n A'" by fact
  show "length x' = n" by fact
  have swapM: "upperFrom k A1 r c = upperFrom k A (swapIndex k ?m r) c" if "r < n" "c < n" for r c
    using m(1) that by (auto simp: upperFrom_def gA1 swapIndex_def)
  have elimM: "upperFrom (Suc k) A' r c
      = (if k < r then upperFrom k A1 r c - get A1 r k / akk * upperFrom k A1 k c
         else upperFrom k A1 r c)" if "r < n" "c < n" for r c
    using that akk0 by (auto simp: upperFrom_def gA' eliminatedEntry_def akk_def)
  have "solvesSystem n (upperFrom (Suc k) A') ((!) x') y
      \<longleftrightarrow> solvesSystem n (upperFrom k A1) ((!) x1) y"
    using k elimM gx' by (rule solvesSystem_eliminate)
  also have "\<dots> \<longleftrightarrow> solvesSystem n (upperFrom k A) ((!) x) y"
    using k m(2) swapM gx1 by (rule solvesSystem_swap)
  finally show "solvesSystem n (upperFrom (Suc k) A') ((!) x') y
      \<longleftrightarrow> solvesSystem n (upperFrom k A) ((!) x) y" .
  have zero: "(0::real) = (if k < r then 0 - get A1 r k / akk * 0 else 0)" for r
    by simp
  have "solvesSystem n (upperFrom (Suc k) A') (\<lambda>_. 0) v
      \<longleftrightarrow> solvesSystem n (upperFrom k A1) (\<lambda>_. 0) v"
    using k elimM zero by (rule solvesSystem_eliminate)
  also have "\<dots> \<longleftrightarrow> solvesSystem n (upperFrom k A) (\<lambda>_. 0) v"
    using k m(2) swapM refl by (rule solvesSystem_swap)
  finally show "solvesSystem n (upperFrom (Suc k) A') (\<lambda>_. 0) v
      \<longleftrightarrow> solvesSystem n (upperFrom k A) (\<lambda>_. 0) v" .
  show "get A' k k \<noteq> 0"
    using gA' [OF k k] akk0 by (simp add: akk_def)
  show "get A' r r = get A r r" if "r < k" for r
  proof -
    from that k have r: "r < n" by simp
    from that m(1) have "swapIndex k ?m r = r" by (simp add: swapIndex_def)
    with gA' [OF r r] gA1 [OF r, of r] that show ?thesis by simp
  qed
qed

lemma elimination_invariant:
  assumes "foldE (eliminationStep n) [0..<j] (A0, b) = Inr (A, x)"
    and "squareOfSize n A0" and "length b = n" and "j \<le> n"
  shows "squareOfSize n A \<and> length x = n
       \<and> (\<forall>y. solvesSystem n (upperFrom j A) ((!) x) y \<longleftrightarrow> solvesSystem n (get A0) ((!) b) y)
       \<and> (\<forall>v. solvesSystem n (upperFrom j A) (\<lambda>_. 0) v \<longleftrightarrow> solvesSystem n (get A0) (\<lambda>_. 0) v)
       \<and> (\<forall>r<j. get A r r \<noteq> 0)"
  using assms(1,4)
proof (induction j arbitrary: A x)
  case 0
  have "upperFrom 0 A0 = get A0" by (intro ext) (simp add: upperFrom_def)
  with 0 assms(2,3) show ?case by simp
next
  case (Suc j)
  from Suc.prems(1)
  have "bindE (foldE (eliminationStep n) [0..<j] (A0, b)) (eliminationStep n j) = Inr (A, x)"
    by (simp add: foldE_snoc)
  then obtain s where "foldE (eliminationStep n) [0..<j] (A0, b) = Inr s"
    and "eliminationStep n j s = Inr (A, x)"
    unfolding bindE_eq_Inr by blast
  then obtain B z where fold_j: "foldE (eliminationStep n) [0..<j] (A0, b) = Inr (B, z)"
    and step: "eliminationStep n j (B, z) = Inr (A, x)"
    by (cases s) simp
  from Suc.IH [OF fold_j] Suc.prems(2)
  have B: "squareOfSize n B" and z: "length z = n"
    and sys: "\<And>y. solvesSystem n (upperFrom j B) ((!) z) y \<longleftrightarrow> solvesSystem n (get A0) ((!) b) y"
    and ker: "\<And>v. solvesSystem n (upperFrom j B) (\<lambda>_. 0) v \<longleftrightarrow> solvesSystem n (get A0) (\<lambda>_. 0) v"
    and diag: "\<And>r. r < j \<Longrightarrow> get B r r \<noteq> 0"
    by simp_all
  from Suc.prems(2) have j: "j < n" by simp
  note st = eliminationStep_Inr [OF step B j z]
  have "get A r r \<noteq> 0" if "r < Suc j" for r
  proof (cases "r = j")
    case True
    then show ?thesis using st(5) by simp
  next
    case False
    with that have "r < j" by simp
    then show ?thesis using st(6) [of r] diag [of r] by simp
  qed
  then show ?case
    using st(1,2) st(3) st(4) sys ker by simp
qed

lemma squareOfSize_clone:
  assumes "rows A = n" and "cols A = n"
  shows "squareOfSize n (clone A)"
  using assms by (simp add: squareOfSize_def wf_matrix_def clone_def)

lemma get_clone: "r < rows A \<Longrightarrow> c < cols A \<Longrightarrow> get (clone A) r c = get A r c"
  by (simp add: clone_def get_def)

lemma solvesSystem_cong:
  assumes "\<And>r c. r < n \<Longrightarrow> c < n \<Longrightarrow> M r c = M' r c"
  shows "solvesSystem n M q y \<longleftrightarrow> solvesSystem n M' q y"
  using assms by (simp add: solvesSystem_def)

lemma solve_Inr:
  assumes "solve A0 b = Inr x"
  obtains A z where "foldE (eliminationStep (rows A0)) [0..<rows A0 - 1] (clone A0, b) = Inr (A, z)"
    and "rows A0 = cols A0" and "rows A0 = length b" and "0 < rows A0"
    and "\<not> \<bar>get A (rows A0 - 1) (rows A0 - 1)\<bar> < 1 / 10 ^ 12"
    and "x = backSubstitute A (rows A0) z"
proof -
  from assms have sq: "rows A0 = cols A0" "rows A0 = length b"
    by (simp_all add: solve_def split: if_splits)
  have "solve A0 b = bindE (foldE (eliminationStep (rows A0)) [0..<rows A0 - 1] (clone A0, b))
      (\<lambda>(A, x). if rows A0 = 0 then Inl TypeError
                else if \<bar>get A (rows A0 - 1) (rows A0 - 1)\<bar> < 1 / 10 ^ 12 then Inl Singular
                else Inr (backSubstitute A (rows A0) x))"
    unfolding solve_def Let_def using sq by (simp only: if_False simp_thms)
  with assms have "bindE (foldE (eliminationStep (rows A0)) [0..<rows A0 - 1] (clone A0, b))
      (\<lambda>(A, x). if rows A0 = 0 then Inl TypeError
                else if \<bar>get A (rows A0 - 1) (rows A0 - 1)\<bar> < 1 / 10 ^ 12 then Inl Singular
                else Inr (backSubstitute A (rows A0) x)) = Inr x"
    by (simp only:)
  then obtain s where s: "foldE (eliminationStep (rows A0)) [0..<rows A0 - 1] (clone A0, b) = Inr s"
    and r: "(case s of (A, x) \<Rightarrow> if rows A0 = 0 then Inl TypeError
                else if \<bar>get A (rows A0 - 1) (rows A0 - 1)\<bar> < 1 / 10 ^ 12 then Inl Singular
                else Inr (backSubstitute A (rows A0) x)) = Inr x"
    unfolding bindE_eq_Inr by blast
  obtain A z where sz: "s = (A, z)" by (cases s)
  from r have "0 < rows A0" "\<not> \<bar>get A (rows A0 - 1) (rows A0 - 1)\<bar> < 1 / 10 ^ 12"
    "x = backSubstitute A (rows A0) z"
    unfolding sz by (simp_all split: if_splits)
  with s sq that show thesis unfolding sz by blast
qed

text \<open>
  What the elimination leaves when \<open>solve\<close> returns: an upper triangular system with a
  diagonal free of zeros that has the solutions of the system given.
\<close>

lemma solve_triangular:
  assumes "solve A0 b = Inr x" and "wf_matrix A0"
  shows "\<exists>A z. squareOfSize (rows A0) A \<and> length z = rows A0
       \<and> x = backSubstitute A (rows A0) z
       \<and> (\<forall>y. solvesSystem (rows A0) (upperFrom (rows A0 - 1) A) ((!) z) y
               \<longleftrightarrow> solvesSystem (rows A0) (get A0) ((!) b) y)
       \<and> (\<forall>v. solvesSystem (rows A0) (upperFrom (rows A0 - 1) A) (\<lambda>_. 0) v
               \<longleftrightarrow> solvesSystem (rows A0) (get A0) (\<lambda>_. 0) v)
       \<and> (\<forall>r<rows A0. get A r r \<noteq> 0)"
proof -
  let ?n = "rows A0"
  from assms(1) obtain A z
    where f: "foldE (eliminationStep ?n) [0..<?n - 1] (clone A0, b) = Inr (A, z)"
      and sq: "?n = cols A0" "?n = length b" and n: "0 < ?n"
      and last: "\<not> \<bar>get A (?n - 1) (?n - 1)\<bar> < 1 / 10 ^ 12"
      and x: "x = backSubstitute A ?n z"
    by (rule solve_Inr)
  have c: "squareOfSize ?n (clone A0)"
    using sq(1) by (simp add: squareOfSize_clone)
  have cl: "solvesSystem ?n (get (clone A0)) q y \<longleftrightarrow> solvesSystem ?n (get A0) q y" for q y
    using sq(1) by (intro solvesSystem_cong) (simp add: get_clone)
  note inv = elimination_invariant [OF f c sq(2) [symmetric] diff_le_self]
  from inv have A: "squareOfSize ?n A" and z: "length z = ?n" by simp_all
  from inv have "\<forall>y. solvesSystem ?n (upperFrom (?n - 1) A) ((!) z) y
               \<longleftrightarrow> solvesSystem ?n (get (clone A0)) ((!) b) y"
    by (elim conjE)
  then have sys: "\<forall>y. solvesSystem ?n (upperFrom (?n - 1) A) ((!) z) y
               \<longleftrightarrow> solvesSystem ?n (get A0) ((!) b) y"
    unfolding cl .
  from inv have "\<forall>v. solvesSystem ?n (upperFrom (?n - 1) A) (\<lambda>_. 0) v
               \<longleftrightarrow> solvesSystem ?n (get (clone A0)) (\<lambda>_. 0) v"
    by (elim conjE)
  then have ker: "\<forall>v. solvesSystem ?n (upperFrom (?n - 1) A) (\<lambda>_. 0) v
               \<longleftrightarrow> solvesSystem ?n (get A0) (\<lambda>_. 0) v"
    unfolding cl .
  from inv have "\<forall>r<?n - 1. get A r r \<noteq> 0" by (elim conjE)
  then have diag: "get A r r \<noteq> 0" if "r < ?n - 1" for r using that by blast
  have d: "\<forall>r<?n. get A r r \<noteq> 0"
  proof (intro allI impI)
    fix r assume r: "r < ?n"
    show "get A r r \<noteq> 0"
    proof (cases "r = ?n - 1")
      case True
      with last show ?thesis by auto
    next
      case False
      with r have "r < ?n - 1" by simp
      then show ?thesis by (rule diag)
    qed
  qed
  show ?thesis
    by (rule exI [of _ A], rule exI [of _ z]) (intro conjI A z x sys ker d)
qed

lemma upperFrom_lower:
  assumes "r < n" and "c < r"
  shows "upperFrom (n - 1) A r c = 0"
  using assms by (auto simp: upperFrom_def)





section \<open>Back substitution\<close>

lemma backSubstitute_inner:
  "fold (\<lambda>j x. x[i := x ! i - get A i j * x ! j]) [Suc i..<m] x
     = x[i := x ! i - (\<Sum>j\<in>{Suc i..<m}. get A i j * x ! j)]"
proof (induction m)
  case 0
  then show ?case by simp
next
  case (Suc m)
  show ?case
  proof (cases "Suc i \<le> m")
    case False
    then have "[Suc i..<Suc m] = []" and "{Suc i..<Suc m} = {}" by simp_all
    then show ?thesis by simp
  next
    case True
    define S where "S = (\<Sum>j\<in>{Suc i..<m}. get A i j * x ! j)"
    define y where "y = x[i := x ! i - S]"
    from True have mi: "m \<noteq> i" by simp
    have ym: "y ! m = x ! m" using mi by (simp add: y_def)
    have "fold (\<lambda>j x. x[i := x ! i - get A i j * x ! j]) [Suc i..<Suc m] x
        = y[i := y ! i - get A i m * y ! m]"
      using True Suc.IH by (simp add: y_def S_def)
    also have "\<dots> = x[i := x ! i - (S + get A i m * x ! m)]"
    proof (cases "i < length x")
      case True
      then show ?thesis by (simp add: y_def ym [unfolded y_def] algebra_simps)
    next
      case False
      then show ?thesis by (simp add: y_def list_update_beyond)
    qed
    also have "S + get A i m * x ! m = (\<Sum>j\<in>{Suc i..<Suc m}. get A i j * x ! j)"
      using True by (simp add: S_def)
    finally show ?thesis .
  qed
qed

lemma backSubstituteRow_eq:
  "backSubstituteRow A n i x
     = x[i := (x ! i - (\<Sum>j\<in>{Suc i..<n}. get A i j * x ! j)) / get A i i]"
proof (cases "i < length x")
  case True
  then show ?thesis by (simp add: backSubstituteRow_def Let_def backSubstitute_inner)
next
  case False
  then show ?thesis
    by (simp add: backSubstituteRow_def Let_def backSubstitute_inner list_update_beyond)
qed

lemma backSubstitute_rows:
  assumes "length x0 = n" and diag: "\<And>r. r < n \<Longrightarrow> get A r r \<noteq> 0" and "m \<le> n"
  shows "length (fold (backSubstituteRow A n) (rev [m..<n]) x0) = n
       \<and> (\<forall>r<m. fold (backSubstituteRow A n) (rev [m..<n]) x0 ! r = x0 ! r)
       \<and> (\<forall>r. m \<le> r \<and> r < n \<longrightarrow>
            (\<Sum>c\<in>{r..<n}. get A r c * fold (backSubstituteRow A n) (rev [m..<n]) x0 ! c) = x0 ! r)"
  using assms(3)
proof (induction m rule: inc_induct)
  case base
  then show ?case using assms(1) by simp
next
  case (step m)
  define y where "y = fold (backSubstituteRow A n) (rev [Suc m..<n]) x0"
  define S where "S = (\<Sum>j\<in>{Suc m..<n}. get A m j * y ! j)"
  from step.IH have ly: "length y = n"
    and low: "\<And>r. r < Suc m \<Longrightarrow> y ! r = x0 ! r"
    and up: "\<And>r. Suc m \<le> r \<Longrightarrow> r < n \<Longrightarrow> (\<Sum>c\<in>{r..<n}. get A r c * y ! c) = x0 ! r"
    by (simp_all add: y_def)
  have st: "fold (backSubstituteRow A n) (rev [m..<n]) x0 = y[m := (y ! m - S) / get A m m]"
    using step.hyps(2) by (simp add: upt_conv_Cons y_def S_def backSubstituteRow_eq)
  have 1: "length (y[m := (y ! m - S) / get A m m]) = n" by (simp add: ly)
  have 2: "y[m := (y ! m - S) / get A m m] ! r = x0 ! r" if "r < m" for r
    using that low [of r] by simp
  have 3: "(\<Sum>c\<in>{r..<n}. get A r c * y[m := (y ! m - S) / get A m m] ! c) = x0 ! r"
    if "m \<le> r" "r < n" for r
  proof (cases "r = m")
    case True
    have "{m..<n} = insert m {Suc m..<n}" using step.hyps(2) by auto
    then have "(\<Sum>c\<in>{m..<n}. get A m c * y[m := (y ! m - S) / get A m m] ! c)
        = get A m m * y[m := (y ! m - S) / get A m m] ! m
          + (\<Sum>c\<in>{Suc m..<n}. get A m c * y[m := (y ! m - S) / get A m m] ! c)"
      by simp
    also have "(\<Sum>c\<in>{Suc m..<n}. get A m c * y[m := (y ! m - S) / get A m m] ! c) = S"
      unfolding S_def by (rule sum.cong) simp_all
    also have "get A m m * y[m := (y ! m - S) / get A m m] ! m = y ! m - S"
      using step.hyps(2) ly diag [of m] by simp
    finally show ?thesis using True low [of m] by simp
  next
    case False
    with that have r: "Suc m \<le> r" by simp
    have "(\<Sum>c\<in>{r..<n}. get A r c * y[m := (y ! m - S) / get A m m] ! c)
        = (\<Sum>c\<in>{r..<n}. get A r c * y ! c)"
      using r by (intro sum.cong) simp_all
    then show ?thesis using up [OF r that(2)] by simp
  qed
  from 1 2 3 show ?case unfolding st by blast
qed

lemma backSubstitute_triangular:
  assumes "length z = n" and "\<And>r. r < n \<Longrightarrow> get A r r \<noteq> 0"
  shows "length (backSubstitute A n z) = n"
    and "solvesSystem n (upperFrom (n - 1) A) ((!) z) ((!) (backSubstitute A n z))"
proof -
  from backSubstitute_rows [OF assms, of 0]
  have l: "length (backSubstitute A n z) = n"
    and rows: "\<And>r. r < n \<Longrightarrow> (\<Sum>c\<in>{r..<n}. get A r c * backSubstitute A n z ! c) = z ! r"
    by (simp_all add: backSubstitute_def)
  show "length (backSubstitute A n z) = n" by fact
  show "solvesSystem n (upperFrom (n - 1) A) ((!) z) ((!) (backSubstitute A n z))"
    unfolding solvesSystem_def
  proof (intro allI impI)
    fix r assume r: "r < n"
    have "(\<Sum>c<n. upperFrom (n - 1) A r c * backSubstitute A n z ! c)
        = (\<Sum>c\<in>{r..<n}. get A r c * backSubstitute A n z ! c)"
    proof (rule sum.mono_neutral_cong_right)
      show "\<forall>c\<in>{..<n} - {r..<n}. upperFrom (n - 1) A r c * backSubstitute A n z ! c = 0"
      proof
        fix c assume "c \<in> {..<n} - {r..<n}"
        then have "c < r" by auto
        with r have "upperFrom (n - 1) A r c = 0" by (rule upperFrom_lower)
        then show "upperFrom (n - 1) A r c * backSubstitute A n z ! c = 0" by simp
      qed
      show "upperFrom (n - 1) A r c * backSubstitute A n z ! c
          = get A r c * backSubstitute A n z ! c" if "c \<in> {r..<n}" for c
        using that by (simp add: upperFrom_def)
    qed auto
    then show "(\<Sum>c<n. upperFrom (n - 1) A r c * backSubstitute A n z ! c) = z ! r"
      using rows [OF r] by simp
  qed
qed

text \<open>
  On a system of at least one equation \<open>solve\<close> either throws the singular-matrix error
  or returns a solution: a vector \<open>x\<close> of the length of \<open>b\<close> with \<open>A x = b\<close>.
\<close>

lemma solve_correct:
  assumes "solve A b = Inr x" and "wf_matrix A"
  shows "length x = rows A"
    and "\<forall>r<rows A. (\<Sum>c<rows A. get A r c * x ! c) = b ! r"
proof -
  from solve_triangular [OF assms] obtain U z
    where all: "squareOfSize (rows A) U \<and> length z = rows A
       \<and> x = backSubstitute U (rows A) z
       \<and> (\<forall>y. solvesSystem (rows A) (upperFrom (rows A - 1) U) ((!) z) y
               \<longleftrightarrow> solvesSystem (rows A) (get A) ((!) b) y)
       \<and> (\<forall>v. solvesSystem (rows A) (upperFrom (rows A - 1) U) (\<lambda>_. 0) v
               \<longleftrightarrow> solvesSystem (rows A) (get A) (\<lambda>_. 0) v)
       \<and> (\<forall>r<rows A. get U r r \<noteq> 0)"
    by (elim exE)
  from all have z: "length z = rows A" and x: "x = backSubstitute U (rows A) z"
    and diag: "\<And>r. r < rows A \<Longrightarrow> get U r r \<noteq> 0"
    by simp_all
  from all have sys: "\<forall>y. solvesSystem (rows A) (upperFrom (rows A - 1) U) ((!) z) y
               \<longleftrightarrow> solvesSystem (rows A) (get A) ((!) b) y"
    by (elim conjE)
  note bs = backSubstitute_triangular [OF z diag]
  from bs(1) show "length x = rows A" by (simp add: x)
  from bs(2) sys have "solvesSystem (rows A) (get A) ((!) b) ((!) x)"
    unfolding x by blast
  then show "\<forall>r<rows A. (\<Sum>c<rows A. get A r c * x ! c) = b ! r"
    by (simp add: solvesSystem_def)
qed


section \<open>The system without a free degree of freedom\<close>

lemma assembleLoadVector_Inr:
  assumes "analyzerValid an"
  shows "\<exists>P. assembleLoadVector an loadCase = Inr P"
proof -
  have "\<exists>P'. foldE (addElementFER an (lc_memberLoads loadCase)) (elements an) P = Inr P' \<and> True" for P
  proof (rule foldE_invariant)
    show True ..
  next
    fix e and P :: "real list"
    assume e: "e \<in> set (elements an)"
    with assms have v: "elementValid e"
      and "\<exists>i j. nodeIndexMap an (node_id (el_iNode e)) = Some i
                 \<and> nodeIndexMap an (node_id (el_jNode e)) = Some j"
      unfolding analyzerValid_def by blast+
    then obtain i j where ij: "nodeIndexMap an (node_id (el_iNode e)) = Some i"
        "nodeIndexMap an (node_id (el_jNode e)) = Some j"
      by blast
    from fixedEndReactions_Inr [OF v, of "lc_memberLoads loadCase"]
    obtain fer where "fixedEndReactions e (lc_memberLoads loadCase) = Inr fer" by blast
    then show "\<exists>P'. addElementFER an (lc_memberLoads loadCase) e P = Inr P' \<and> True"
      by (simp add: addElementFER_def ij)
  qed
  then show ?thesis by (simp add: assembleLoadVector_def Let_def)
qed

lemma combinedLoadVector_Inr:
  assumes "analyzerValid an"
  shows "\<exists>P. combinedLoadVector an combo = Inr P"
proof -
  have "\<exists>P'. foldE (addCase an) (combo_factors combo) (replicate (numDOF an) 0) = Inr P' \<and> True"
  proof (rule foldE_invariant)
    show True ..
  next
    fix cf :: "string \<times> real" and P :: "real list"
    obtain caseName factor where cf: "cf = (caseName, factor)" by (cases cf)
    show "\<exists>P'. addCase an cf P = Inr P' \<and> True"
    proof (cases "find (\<lambda>lc. lc_name lc = caseName) (loadCases (an_model an))")
      case None
      then show ?thesis by (simp add: addCase_def cf)
    next
      case (Some loadCase)
      from assembleLoadVector_Inr [OF assms, of loadCase]
      obtain caseP where "assembleLoadVector an loadCase = Inr caseP" by blast
      with Some show ?thesis by (simp add: addCase_def cf)
    qed
  qed
  then show ?thesis by (simp add: combinedLoadVector_def)
qed

lemma solve_empty: "rows A = 0 \<Longrightarrow> cols A = 0 \<Longrightarrow> solve A [] = Inl TypeError"
  by (simp add: solve_def)

lemma solveSystem_no_free_DOF:
  assumes "analyzerValid an" and "freeDOF an = []"
  shows "solveSystem an combo = Inl TypeError"
proof -
  from assemble_invariant [OF assms(1)] obtain K where K: "assembleGlobalStiffnessMatrix an = Inr K"
    by blast
  from combinedLoadVector_Inr [OF assms(1), of combo] obtain P
    where P: "combinedLoadVector an combo = Inr P" by blast
  have "solve (subMatrix K [] []) (extractVector P []) = Inl TypeError"
    by (simp add: solve_empty subMatrix_def extractVector_def)
  then show ?thesis
    by (simp add: solveSystem_def K P assms(2) Let_def)
qed

lemma clamped_new_Analyzer:
  "\<exists>an. new_Analyzer clampedModel = Inr an \<and> freeDOF an = []"
proof -
  have 1: "foldE (createElement (buildMap node_id (nodes clampedModel))
      (buildMap mat_id (materials clampedModel))
      (buildMap sec_id (sections clampedModel))) (members clampedModel) [] = Inr [exElement]"
    using ex_new
    by (simp add: clampedModel_def exModel_def createElement_def buildMap_def exMember_def
        exNodeI_def exNodeJ_def exMaterial_def exSection_def)
  have 2: "classifyDOF (nodes clampedModel) (buildMap sup_node (supports clampedModel)) =
        ([], [0, 1, 2, 3, 4, 5, 6, 7, 8, 9, 10, 11])"
    by (simp add: classifyDOF_def clampedModel_def exModel_def buildMap_def exNodeI_def
        exNodeJ_def upt_6 constraintsOf_def Let_def numeral_eq_Suc)
  show ?thesis
    unfolding new_Analyzer_def Let_def 1 2 by simp
qed

text \<open>
  Claim C5. On a system of no equations \<open>solve\<close> ends with the TypeError of the read of
  \<open>A[-1][-1]\<close>: it neither reports a singular matrix nor returns the empty solution.
  The analysis reaches this case when every degree of freedom is supported: the beam
  clamped at both ends fails with that error instead of returning zero displacements.
\<close>

theorem solve_empty_system_type_error:
  "solve (zeros 0 0) [] = Inl TypeError
   \<and> analyzeModel clampedModel ''C1'' = Inr (failedResult ''C1'' TypeError)"
proof -
  from clamped_new_Analyzer obtain an
    where an: "new_Analyzer clampedModel = Inr an" "freeDOF an = []" by blast
  from new_Analyzer_valid [OF an(1)] have v: "analyzerValid an" "an_model an = clampedModel"
    by simp_all
  have f: "find (\<lambda>c. combo_name c = ''C1'') (loadCombinations (an_model an)) = Some (exCombination 1)"
    by (simp add: v(2) clampedModel_def exModel_def exCombination_def)
  have "fst (analyze an ''C1'') = failedResult ''C1'' TypeError"
    unfolding analyze_found [OF v(1) f] solveSystem_no_free_DOF [OF v(1) an(2)] by simp
  then have "analyzeModel clampedModel ''C1'' = Inr (failedResult ''C1'' TypeError)"
    by (simp add: analyzeModel_def an(1))
  moreover have "solve (zeros 0 0) [] = Inl TypeError"
    by (simp add: solve_empty zeros_def Matrix_new_def)
  ultimately show ?thesis by simp
qed


section \<open>The structure free to move in a global direction\<close>












section \<open>Facts about the store\<close>

lemma returnS_apply [simp]: "returnS v s = (Inr v, s)"
  by (simp add: returnS_def)

lemma throwS_apply [simp]: "throwS e s = (Inl e, s)"
  by (simp add: throwS_def)

lemma liftE_apply [simp]: "liftE r s = (r, s)"
  by (simp add: liftE_def)

lemma bindS_apply: "bindS m f s = (case m s of (Inl e, s') \<Rightarrow> (Inl e, s') | (Inr v, s') \<Rightarrow> f v s')"
  by (simp add: bindS_def)

lemma bindS_Inr [simp]: "m s = (Inr v, s') \<Longrightarrow> bindS m f s = f v s'"
  by (simp add: bindS_def)

lemma bindS_Inl [simp]: "m s = (Inl e, s') \<Longrightarrow> bindS m f s = (Inl e, s')"
  by (simp add: bindS_def)

lemma newCell_apply [simp]: "newCell c s = (Inr (length s), s @ [c])"
  by (simp add: newCell_def)

lemma readGrid_at: "a < length s \<Longrightarrow> s ! a = Grid m \<Longrightarrow> readGrid a s = (Inr m, s)"
  by (simp add: readGrid_def readCell_def bindS_def)

lemma readNumbers_at: "a < length s \<Longrightarrow> s ! a = Numbers v \<Longrightarrow> readNumbers a s = (Inr v, s)"
  by (simp add: readNumbers_def readCell_def bindS_def)

lemma readIndices_at: "a < length s \<Longrightarrow> s ! a = Indices v \<Longrightarrow> readIndices a s = (Inr v, s)"
  by (simp add: readIndices_def readCell_def bindS_def)

lemma readInstance_at: "a < length s \<Longrightarrow> s ! a = Instance obj \<Longrightarrow> readInstance a s = (Inr obj, s)"
  by (simp add: readInstance_def readCell_def bindS_def)

lemma writeCell_at: "a < length s \<Longrightarrow> writeCell a c s = (Inr (), s[a := c])"
  by (simp add: writeCell_def)

lemma getS_at: "a < length s \<Longrightarrow> s ! a = Grid m \<Longrightarrow> getS a i j s = (Inr (get m i j), s)"
  by (simp add: getS_def readGrid_at)

lemma setS_at:
  "a < length s \<Longrightarrow> s ! a = Grid m \<Longrightarrow> setS a i j v s = (Inr (), s[a := Grid (set_m m i j v)])"
  by (simp add: setS_def readGrid_at writeCell_at)

lemma addS_at:
  "a < length s \<Longrightarrow> s ! a = Grid m \<Longrightarrow> addS a i j v s = (Inr (), s[a := Grid (add_m m i j v)])"
  by (simp add: addS_def readGrid_at writeCell_at)

lemma numberAt_at: "a < length s \<Longrightarrow> s ! a = Numbers v \<Longrightarrow> numberAt a i s = (Inr (v ! i), s)"
  by (simp add: numberAt_def readNumbers_at)

lemma setNumberAt_at:
  "a < length s \<Longrightarrow> s ! a = Numbers v \<Longrightarrow> setNumberAt a i x s = (Inr (), s[a := Numbers (v[i := x])])"
  by (simp add: setNumberAt_def readNumbers_at writeCell_at)

lemma addToS_at:
  "a < length s \<Longrightarrow> s ! a = Numbers v \<Longrightarrow> addToS a i x s = (Inr (), s[a := Numbers (addTo v i x)])"
  by (simp add: addToS_def numberAt_at setNumberAt_at addTo_def)

lemma indexAt_at: "a < length s \<Longrightarrow> s ! a = Indices v \<Longrightarrow> indexAt a i s = (Inr (v ! i), s)"
  by (simp add: indexAt_def readIndices_at)

lemma setIndexAt_at:
  "a < length s \<Longrightarrow> s ! a = Indices v \<Longrightarrow> setIndexAt a i x s = (Inr (), s[a := Indices (v[i := x])])"
  by (simp add: setIndexAt_def readIndices_at writeCell_at)

subsection \<open>The three cells of solve\<close>

lemma owned_getS [simp]: "getS (length s) i j (owned s m v p) = (Inr (get m i j), owned s m v p)"
  by (simp add: owned_def getS_at)

lemma owned_readGrid [simp]: "readGrid (length s) (owned s m v p) = (Inr m, owned s m v p)"
  by (simp add: owned_def readGrid_at)

lemma owned_setS [simp]:
  "setS (length s) i j c (owned s m v p) = (Inr (), owned s (set_m m i j c) v p)"
  by (simp add: owned_def setS_at)

lemma owned_numberAt [simp]:
  "numberAt (Suc (length s)) i (owned s m v p) = (Inr (v ! i), owned s m v p)"
  by (simp add: owned_def numberAt_at nth_append)

lemma owned_setNumberAt [simp]:
  "setNumberAt (Suc (length s)) i c (owned s m v p) = (Inr (), owned s m (v[i := c]) p)"
  by (simp add: owned_def setNumberAt_at nth_append list_update_append)

lemma owned_indexAt [simp]:
  "indexAt (Suc (Suc (length s))) i (owned s m v p) = (Inr (p ! i), owned s m v p)"
  by (simp add: owned_def indexAt_at nth_append)

lemma owned_setIndexAt [simp]:
  "setIndexAt (Suc (Suc (length s))) i c (owned s m v p) = (Inr (), owned s m v (p[i := c]))"
  by (simp add: owned_def setIndexAt_at nth_append list_update_append)

lemma forS_owned_grid:
  assumes "\<And>j m. j \<in> set js \<Longrightarrow> body j (owned s m v p) = (Inr (), owned s (g j m) v p)"
  shows "forS js body (owned s m v p) = (Inr (), owned s (fold g js m) v p)"
  using assms by (induction js arbitrary: m) simp_all

lemma forS_owned_numbers:
  assumes "\<And>j v. j \<in> set js \<Longrightarrow> body j (owned s m v p) = (Inr (), owned s m (g j v) p)"
  shows "forS js body (owned s m v p) = (Inr (), owned s m (fold g js v) p)"
  using assms by (induction js arbitrary: v) simp_all

lemma forS_owned_pair:
  assumes "\<And>j m v. j \<in> set js \<Longrightarrow>
      body j (owned s m v p) = (Inr (), owned s (fst (g j (m, v))) (snd (g j (m, v))) p)"
  shows "forS js body (owned s m v p)
       = (Inr (), owned s (fst (fold g js (m, v))) (snd (fold g js (m, v))) p)"
  using assms by (induction js arbitrary: m v) simp_all

lemma swapRowsS_owned:
  "swapRowsS n (length s) k maxRow (owned s m v p) = (Inr (), owned s (swapRows m n k maxRow) v p)"
  unfolding swapRowsS_def swapRows_def
  by (rule forS_owned_grid) (simp add: Let_def)

lemma swapEntriesS_owned:
  "swapEntriesS (Suc (length s)) k maxRow (owned s m v p)
     = (Inr (), owned s m (swapEntries v k maxRow) p)"
  by (simp add: swapEntriesS_def swapEntries_def Let_def)

lemma swapPivotS_owned:
  "swapPivotS (Suc (Suc (length s))) k maxRow (owned s m v p)
     = (Inr (), owned s m v (p[k := p ! maxRow, maxRow := p ! k]))"
  by (simp add: swapPivotS_def)

lemma eliminateRowS_owned:
  "eliminateRowS n (length s) (Suc (length s)) k akk i (owned s m v p)
     = (Inr (), owned s (fst (eliminateRow n k akk i (m, v))) (snd (eliminateRow n k akk i (m, v))) p)"
proof -
  define f where "f = get m i k / akk"
  have inner: "forS [Suc k..<n] (\<lambda>j. bindS (getS (length s) i j) (\<lambda>aij.
           bindS (getS (length s) k j) (\<lambda>akj. setS (length s) i j (aij - f * akj))))
         (owned s (set_m m i k f) v p)
      = (Inr (), owned s (fold (\<lambda>j A. set_m A i j (get A i j - f * get A k j)) [Suc k..<n]
           (set_m m i k f)) v p)"
    by (rule forS_owned_grid) simp
  show ?thesis
    unfolding eliminateRowS_def eliminateRow_def
    by (simp add: Let_def f_def [symmetric] inner del: times_divide_eq_left)
qed

lemma forS_owned_error:
  assumes "\<And>k m v p. k \<in> set ks \<Longrightarrow>
      \<exists>m' v' p'. body k (owned s m v p)
        = (case g k (m, v) of Inl e \<Rightarrow> (Inl e, owned s m' v' p')
           | Inr q \<Rightarrow> (Inr (), owned s (fst q) (snd q) p'))"
  shows "\<exists>m' v' p'. forS ks body (owned s m v p)
        = (case foldE g ks (m, v) of Inl e \<Rightarrow> (Inl e, owned s m' v' p')
           | Inr q \<Rightarrow> (Inr (), owned s (fst q) (snd q) p'))"
  using assms
proof (induction ks arbitrary: m v p)
  case Nil
  have "forS [] body (owned s m v p) = (Inr (), owned s m v p)" by simp
  then show ?case by auto
next
  case (Cons k ks)
  from Cons.prems [of k m v p] obtain m1 v1 p1
    where b: "body k (owned s m v p)
        = (case g k (m, v) of Inl e \<Rightarrow> (Inl e, owned s m1 v1 p1)
           | Inr q \<Rightarrow> (Inr (), owned s (fst q) (snd q) p1))"
    by auto
  show ?case
  proof (cases "g k (m, v)")
    case (Inl e)
    with b have "forS (k # ks) body (owned s m v p) = (Inl e, owned s m1 v1 p1)" by simp
    with Inl show ?thesis by auto
  next
    case (Inr q)
    with b have "forS (k # ks) body (owned s m v p) = forS ks body (owned s (fst q) (snd q) p1)"
      by simp
    moreover from Cons.IH [of "fst q" "snd q" p1] Cons.prems
    obtain m' v' p' where "forS ks body (owned s (fst q) (snd q) p1)
        = (case foldE g ks (fst q, snd q) of Inl e \<Rightarrow> (Inl e, owned s m' v' p')
           | Inr q \<Rightarrow> (Inr (), owned s (fst q) (snd q) p'))"
      by auto
    ultimately show ?thesis using Inr by auto
  qed
qed

lemma eliminationStepS_owned:
  "\<exists>m' v' p'. eliminationStepS n (length s) (Suc (length s)) (Suc (Suc (length s))) k (owned s m v p)
     = (case eliminationStep n k (m, v) of Inl e \<Rightarrow> (Inl e, owned s m' v' p')
        | Inr q \<Rightarrow> (Inr (), owned s (fst q) (snd q) p'))"
proof -
  let ?r = "snd (findPivot m n k)"
  define A1 where "A1 = (if ?r \<noteq> k then swapRows m n k ?r else m)"
  define x1 where "x1 = (if ?r \<noteq> k then swapEntries v k ?r else v)"
  define p1 where "p1 = (if ?r \<noteq> k then p[k := p ! ?r, ?r := p ! k] else p)"
  define akk where "akk = get A1 k k"
  have swap: "(if ?r \<noteq> k
        then bindS (swapRowsS n (length s) k ?r) (\<lambda>_.
             bindS (swapEntriesS (Suc (length s)) k ?r) (\<lambda>_.
               swapPivotS (Suc (Suc (length s))) k ?r))
        else returnS ()) (owned s m v p) = (Inr (), owned s A1 x1 p1)"
    by (simp add: A1_def x1_def p1_def swapRowsS_owned swapEntriesS_owned swapPivotS_owned)
  have elim: "forS [Suc k..<n] (eliminateRowS n (length s) (Suc (length s)) k akk) (owned s A1 x1 p1)
      = (Inr (), owned s (fst (fold (eliminateRow n k akk) [Suc k..<n] (A1, x1)))
                         (snd (fold (eliminateRow n k akk) [Suc k..<n] (A1, x1))) p1)"
    by (rule forS_owned_pair) (rule eliminateRowS_owned)
  have pure: "eliminationStep n k (m, v)
      = (if \<bar>akk\<bar> < 1 / 10 ^ 12 then Inl Singular
         else Inr (fold (eliminateRow n k akk) [Suc k..<n] (A1, x1)))"
    by (simp add: eliminationStep_def Let_def A1_def x1_def akk_def)
  have "eliminationStepS n (length s) (Suc (length s)) (Suc (Suc (length s))) k (owned s m v p)
      = (if \<bar>akk\<bar> < 1 / 10 ^ 12 then (Inl Singular, owned s A1 x1 p1)
         else (Inr (), owned s (fst (fold (eliminateRow n k akk) [Suc k..<n] (A1, x1)))
                         (snd (fold (eliminateRow n k akk) [Suc k..<n] (A1, x1))) p1))"
    unfolding eliminationStepS_def Let_def
    by (simp add: swap akk_def [symmetric] elim)
  then show ?thesis unfolding pure by auto
qed

lemma backSubstituteRowS_owned:
  "backSubstituteRowS n (length s) (Suc (length s)) i (owned s m v p)
     = (Inr (), owned s m (backSubstituteRow m n i v) p)"
proof -
  have inner: "forS [Suc i..<n] (\<lambda>j. bindS (numberAt (Suc (length s)) i) (\<lambda>xi.
          bindS (getS (length s) i j) (\<lambda>aij.
          bindS (numberAt (Suc (length s)) j) (\<lambda>xj.
            setNumberAt (Suc (length s)) i (xi - aij * xj))))) (owned s m v p)
      = (Inr (), owned s m (fold (\<lambda>j x. x[i := x ! i - get m i j * x ! j]) [Suc i..<n] v) p)"
    by (rule forS_owned_numbers) simp
  show ?thesis
    unfolding backSubstituteRowS_def backSubstituteRow_def
    by (simp add: inner Let_def)
qed

lemma backSubstituteS_owned:
  "forS js (backSubstituteRowS n (length s) (Suc (length s))) (owned s m v p)
     = (Inr (), owned s m (fold (backSubstituteRow m n) js v) p)"
  by (rule forS_owned_numbers) (rule backSubstituteRowS_owned)

text \<open>
  \<open>solve\<close> on the store: it appends its working cells, leaves every cell that existed
  as it was, and what it returns is what \<open>solve\<close> returns on the values.
\<close>

lemma solveS_spec:
  assumes "this < length s" and "s ! this = Grid m" and "b < length s" and "s ! b = Numbers bv"
  shows "\<exists>junk. snd (solveS this b s) = s @ junk
       \<and> (case solve m bv of
            Inl e \<Rightarrow> fst (solveS this b s) = Inl e
          | Inr xv \<Rightarrow> fst (solveS this b s) = Inr (Suc (length s))
                     \<and> Suc (length s) < length (s @ junk)
                     \<and> (s @ junk) ! Suc (length s) = Numbers xv)"
proof -
  have rd: "readGrid this s = (Inr m, s)" "readNumbers b s = (Inr bv, s)"
    using assms by (simp_all add: readGrid_at readNumbers_at)
  show ?thesis
  proof (cases "rows m \<noteq> cols m \<or> rows m \<noteq> length bv")
    case True
    then have "solveS this b s = (Inl (if rows m \<noteq> cols m then NotSquare else RhsLength), s)"
      by (auto simp: solveS_def rd)
    moreover from True have "solve m bv = Inl (if rows m \<noteq> cols m then NotSquare else RhsLength)"
      by (auto simp: solve_def)
    ultimately show ?thesis by (intro exI [of _ "[]"]) simp
  next
    case False
    define n where "n = rows m"
    from False have sq: "cols m = n" "length bv = n" by (simp_all add: n_def)
    let ?A = "length s"
    let ?x = "Suc (length s)"
    let ?p = "Suc (Suc (length s))"
    from forS_owned_error [where body = "eliminationStepS n ?A ?x ?p" and g = "eliminationStep n"
        and ks = "[0..<n - 1]" and s = s and m = "clone m" and v = bv and p = "[0..<n]"]
      eliminationStepS_owned [of n s]
    obtain m' v' p' where loop:
      "forS [0..<n - 1] (eliminationStepS n ?A ?x ?p) (owned s (clone m) bv [0..<n])
        = (case foldE (eliminationStep n) [0..<n - 1] (clone m, bv) of
             Inl e \<Rightarrow> (Inl e, owned s m' v' p')
           | Inr q \<Rightarrow> (Inr (), owned s (fst q) (snd q) p'))"
      by blast
    have "solveS this b s
        = bindS (forS [0..<n - 1] (eliminationStepS n ?A ?x ?p)) (\<lambda>_.
           if n = 0 then throwS TypeError
           else
             bindS (getS ?A (n - 1) (n - 1)) (\<lambda>last.
               if \<bar>last\<bar> < 1 / 10 ^ 12 then throwS Singular
               else
                 bindS (forS (rev [0..<n]) (backSubstituteRowS n ?A ?x)) (\<lambda>_.
                   returnS ?x))) (s @ [Grid (clone m), Numbers bv, Indices [0..<n]])"
      by (simp add: solveS_def rd cloneS_def Let_def n_def [symmetric] sq split del: if_split)
    then have run: "solveS this b s
        = bindS (forS [0..<n - 1] (eliminationStepS n ?A ?x ?p)) (\<lambda>_.
           if n = 0 then throwS TypeError
           else
             bindS (getS ?A (n - 1) (n - 1)) (\<lambda>last.
               if \<bar>last\<bar> < 1 / 10 ^ 12 then throwS Singular
               else
                 bindS (forS (rev [0..<n]) (backSubstituteRowS n ?A ?x)) (\<lambda>_.
                   returnS ?x))) (owned s (clone m) bv [0..<n])"
      unfolding owned_def .
    have pure: "solve m bv
        = bindE (foldE (eliminationStep n) [0..<n - 1] (clone m, bv)) (\<lambda>(A, x).
            if n = 0 then Inl TypeError
            else if \<bar>get A (n - 1) (n - 1)\<bar> < 1 / 10 ^ 12 then Inl Singular
            else Inr (backSubstitute A n x))"
      by (simp add: solve_def Let_def n_def [symmetric] sq split del: if_split)
    show ?thesis
    proof (cases "foldE (eliminationStep n) [0..<n - 1] (clone m, bv)")
      case (Inl e)
      with loop run have "solveS this b s = (Inl e, owned s m' v' p')" by simp
      moreover from Inl pure have "solve m bv = Inl e" by simp
      ultimately show ?thesis
        by (intro exI [of _ "[Grid m', Numbers v', Indices p']"]) (simp add: owned_def)
    next
      case (Inr q)
      obtain A x where q: "q = (A, x)" by (cases q)
      from Inr loop q have l: "forS [0..<n - 1] (eliminationStepS n ?A ?x ?p)
          (owned s (clone m) bv [0..<n]) = (Inr (), owned s A x p')"
        by simp
      have after: "solveS this b s
          = (if n = 0 then throwS TypeError
             else
               bindS (getS ?A (n - 1) (n - 1)) (\<lambda>last.
                 if \<bar>last\<bar> < 1 / 10 ^ 12 then throwS Singular
                 else
                   bindS (forS (rev [0..<n]) (backSubstituteRowS n ?A ?x)) (\<lambda>_.
                     returnS ?x))) (owned s A x p')"
        unfolding run
        by (rule bindS_Inr [where m = "forS [0..<n - 1] (eliminationStepS n ?A ?x ?p)"
              and s = "owned s (clone m) bv [0..<n]", OF l])
      show ?thesis
      proof (cases "n = 0 \<or> \<bar>get A (n - 1) (n - 1)\<bar> < 1 / 10 ^ 12")
        case True
        then have "solveS this b s = (Inl (if n = 0 then TypeError else Singular), owned s A x p')"
          unfolding after by auto
        moreover from True Inr q pure
        have "solve m bv = Inl (if n = 0 then TypeError else Singular)" by auto
        ultimately show ?thesis
          by (intro exI [of _ "[Grid A, Numbers x, Indices p']"]) (simp add: owned_def)
      next
        case False
        then have "solveS this b s = (Inr ?x, owned s A (backSubstitute A n x) p')"
          unfolding after by (simp add: backSubstituteS_owned backSubstitute_def)
        moreover from False Inr q pure have "solve m bv = Inr (backSubstitute A n x)" by simp
        ultimately show ?thesis
          by (intro exI [of _ "[Grid A, Numbers (backSubstitute A n x), Indices p']"])
            (simp add: owned_def nth_append)
      qed
    qed
  qed
qed

subsection \<open>Stores that keep their cells\<close>

lemma unchanged_refl [simp]: "unchanged s s"
  by (simp add: unchanged_def)

lemma unchanged_append [simp]: "unchanged s (s @ junk)"
  by (simp add: unchanged_def)

lemma unchanged_length: "unchanged s s' \<Longrightarrow> length s \<le> length s'"
proof -
  assume "unchanged s s'"
  then have "length (take (length s) s') = length s" by (simp add: unchanged_def)
  then show ?thesis by (simp add: min_def split: if_splits)
qed

lemma unchanged_nth: "unchanged s s' \<Longrightarrow> a < length s \<Longrightarrow> s' ! a = s ! a"
  unfolding unchanged_def by (metis nth_take)

lemma unchanged_trans: "unchanged s s' \<Longrightarrow> unchanged s' s'' \<Longrightarrow> unchanged s s''"
proof -
  assume a: "unchanged s s'" and b: "unchanged s' s''"
  have "take (length s) s'' = take (length s) (take (length s') s'')"
    using unchanged_length [OF a] by (simp add: min_def)
  also have "\<dots> = s" using a b by (simp add: unchanged_def)
  finally show ?thesis by (simp add: unchanged_def)
qed

lemma unchanged_update: "unchanged s s' \<Longrightarrow> length s \<le> a \<Longrightarrow> unchanged s (s'[a := c])"
  by (simp add: unchanged_def)

lemma unchanged_less: "unchanged s s' \<Longrightarrow> a < length s \<Longrightarrow> a < length s'"
  using unchanged_length by fastforce

subsection \<open>Loops on the store\<close>

lemma foldE_pure: "foldE (\<lambda>j q. Inr (g j q)) js q = Inr (fold g js q)"
  by (induction js arbitrary: q) simp_all

lemma forS_simulation:
  assumes "\<And>j s. j \<in> set js \<Longrightarrow> I s \<Longrightarrow>
      I (snd (body j s))
      \<and> (case g j (view s) of
           Inl e \<Rightarrow> fst (body j s) = Inl e
         | Inr q \<Rightarrow> fst (body j s) = Inr () \<and> view (snd (body j s)) = q)"
  shows "I s \<Longrightarrow>
      I (snd (forS js body s))
      \<and> (case foldE g js (view s) of
           Inl e \<Rightarrow> fst (forS js body s) = Inl e
         | Inr q \<Rightarrow> fst (forS js body s) = Inr () \<and> view (snd (forS js body s)) = q)"
  using assms
proof (induction js arbitrary: s)
  case Nil
  then show ?case by simp
next
  case (Cons j js)
  from Cons.prems(2) [of j s] Cons.prems(1)
  have i: "I (snd (body j s))"
    and r: "case g j (view s) of
           Inl e \<Rightarrow> fst (body j s) = Inl e
         | Inr q \<Rightarrow> fst (body j s) = Inr () \<and> view (snd (body j s)) = q"
    by simp_all
  obtain r1 s1 where b: "body j s = (r1, s1)" by (cases "body j s")
  show ?case
  proof (cases "g j (view s)")
    case (Inl e)
    with r b have "r1 = Inl e" by simp
    with b have "forS (j # js) body s = (Inl e, s1)" by simp
    with Inl i b show ?thesis by simp
  next
    case (Inr q)
    with r b have r1: "r1 = Inr ()" and q: "view s1 = q" by simp_all
    from b r1 have e: "forS (j # js) body s = forS js body s1" by simp
    from Cons.IH [of s1] i b Cons.prems(2)
    have "I (snd (forS js body s1))
      \<and> (case foldE g js (view s1) of
           Inl e \<Rightarrow> fst (forS js body s1) = Inl e
         | Inr q \<Rightarrow> fst (forS js body s1) = Inr () \<and> view (snd (forS js body s1)) = q)"
      by simp
    then show ?thesis unfolding e using Inr q by simp
  qed
qed

lemma forS_update_grid:
  assumes "\<And>j m. j \<in> set js \<Longrightarrow> body j (s[a := Grid m]) = (Inr (), s[a := Grid (g j m)])"
  shows "forS js body (s[a := Grid m]) = (Inr (), s[a := Grid (fold g js m)])"
  using assms by (induction js arbitrary: m) simp_all

lemma forS_update_numbers:
  assumes "\<And>j v. j \<in> set js \<Longrightarrow> body j (s[a := Numbers v]) = (Inr (), s[a := Numbers (g j v)])"
  shows "forS js body (s[a := Numbers v]) = (Inr (), s[a := Numbers (fold g js v)])"
  using assms by (induction js arbitrary: v) simp_all

subsection \<open>The analyzer in the store\<close>

lemma fieldsOf_snd [simp]: "snd (fieldsOf this s) = s"
  by (simp add: fieldsOf_def readInstance_def readIndices_def readCell_def bindS_def
      split: cell.splits)

lemma analyzerAt_Some:
  "analyzerAt s this = Some an \<longleftrightarrow>
     (\<exists>obj. this < length s \<and> s ! this = Instance obj
        \<and> obj_freeDOF obj < length s \<and> s ! obj_freeDOF obj = Indices (freeDOF an)
        \<and> obj_fixedDOF obj < length s \<and> s ! obj_fixedDOF obj = Indices (fixedDOF an)
        \<and> an = \<lparr>an_model = obj_model obj, nodeMap = obj_nodeMap obj,
                 nodeIndexMap = obj_nodeIndexMap obj, materialMap = obj_materialMap obj,
                 sectionMap = obj_sectionMap obj, supportMap = obj_supportMap obj,
                 elements = obj_elements obj, numDOF = obj_numDOF obj,
                 freeDOF = freeDOF an, fixedDOF = fixedDOF an\<rparr>)"
  by (auto simp: analyzerAt_def fieldsOf_def readInstance_def readIndices_def readCell_def
      bindS_def split: cell.splits sum.splits)

lemma fieldsOf_at: "analyzerAt s this = Some an \<Longrightarrow> fieldsOf this s = (Inr an, s)"
proof -
  assume "analyzerAt s this = Some an"
  then have "fst (fieldsOf this s) = Inr an"
    by (simp add: analyzerAt_def split: sum.splits)
  then show ?thesis by (metis fieldsOf_snd prod.collapse)
qed

lemma analyzerAt_unchanged:
  assumes "analyzerAt s this = Some an" and "unchanged s s'"
  shows "analyzerAt s' this = Some an"
proof -
  from assms(1) obtain obj where o: "this < length s" "s ! this = Instance obj"
      "obj_freeDOF obj < length s" "s ! obj_freeDOF obj = Indices (freeDOF an)"
      "obj_fixedDOF obj < length s" "s ! obj_fixedDOF obj = Indices (fixedDOF an)"
      "an = \<lparr>an_model = obj_model obj, nodeMap = obj_nodeMap obj,
                 nodeIndexMap = obj_nodeIndexMap obj, materialMap = obj_materialMap obj,
                 sectionMap = obj_sectionMap obj, supportMap = obj_supportMap obj,
                 elements = obj_elements obj, numDOF = obj_numDOF obj,
                 freeDOF = freeDOF an, fixedDOF = fixedDOF an\<rparr>"
    unfolding analyzerAt_Some by blast
  have "this < length s'" "s' ! this = Instance obj"
      "obj_freeDOF obj < length s'" "s' ! obj_freeDOF obj = Indices (freeDOF an)"
      "obj_fixedDOF obj < length s'" "s' ! obj_fixedDOF obj = Indices (fixedDOF an)"
    using o(1-6) unchanged_nth [OF assms(2)] unchanged_less [OF assms(2)] by simp_all
  with o(7) show ?thesis unfolding analyzerAt_Some by blast
qed

subsection \<open>Assembly of the stiffness matrix on the store\<close>

lemma scatterS:
  assumes "K < length s" and "kGlobal < length s" and "kGlobal \<noteq> K" and "s ! kGlobal = Grid kG"
  shows "forS [0..<12] (\<lambda>i. forS [0..<12] (\<lambda>j.
           bindS (getS kGlobal i j) (\<lambda>v. addS K (dofMap ! i) (dofMap ! j) v))) (s[K := Grid m])
       = (Inr (), s[K := Grid (scatterAdd kG dofMap m)])"
  unfolding scatterAdd_def
proof (rule forS_update_grid)
  fix i m
  show "forS [0..<12] (\<lambda>j. bindS (getS kGlobal i j) (\<lambda>v. addS K (dofMap ! i) (dofMap ! j) v))
          (s[K := Grid m])
      = (Inr (), s[K := Grid (fold (\<lambda>j K. add_m K (dofMap ! i) (dofMap ! j) (get kG i j))
                                [0..<12] m)])"
  proof (rule forS_update_grid)
    fix j m
    have "getS kGlobal i j (s[K := Grid m]) = (Inr (get kG i j), s[K := Grid m])"
      using assms by (simp add: getS_at)
    moreover have "addS K (dofMap ! i) (dofMap ! j) (get kG i j) (s[K := Grid m])
        = (Inr (), s[K := Grid (add_m m (dofMap ! i) (dofMap ! j) (get kG i j))])"
      using assms(1) by (simp add: addS_at)
    ultimately show "bindS (getS kGlobal i j) (\<lambda>v. addS K (dofMap ! i) (dofMap ! j) v)
          (s[K := Grid m])
        = (Inr (), s[K := Grid (add_m m (dofMap ! i) (dofMap ! j) (get kG i j))])"
      by simp
  qed
qed

lemma assembleElementS_sim:
  assumes an: "analyzerAt s0 this = Some an" and K: "length s0 \<le> K" and I: "gridCell s0 K s"
  shows "gridCell s0 K (snd (assembleElementS this K e s))
       \<and> (case assembleElement an e (gridOf (s ! K)) of
            Inl err \<Rightarrow> fst (assembleElementS this K e s) = Inl err
          | Inr K' \<Rightarrow> fst (assembleElementS this K e s) = Inr ()
                     \<and> gridOf (snd (assembleElementS this K e s) ! K) = K')"
proof -
  from I obtain m where u: "unchanged s0 s" and Kl: "K < length s" and m: "s ! K = Grid m"
    by (auto simp: gridCell_def)
  have g: "gridOf (s ! K) = m" by (simp add: m gridOf_def)
  show ?thesis
  proof (cases "globalStiffnessMatrix e")
    case (Inl err)
    then have "assembleElementS this K e s = (Inl err, s)"
      by (simp add: assembleElementS_def globalStiffnessMatrixS_def)
    with Inl I show ?thesis by (simp add: assembleElement_def)
  next
    case kG: (Inr kG)
    let ?s1 = "s @ [Grid kG]"
    have u1: "unchanged s0 ?s1" using u by (rule unchanged_trans) simp
    have f: "fieldsOf this ?s1 = (Inr an, ?s1)"
      using analyzerAt_unchanged [OF an u1] by (rule fieldsOf_at)
    have I1: "gridCell s0 K ?s1"
      using u1 Kl m by (simp add: gridCell_def nth_append)
    show ?thesis
    proof (cases "dofMapOf an e")
      case (Inl err)
      then have "assembleElementS this K e s = (Inl err, ?s1)"
        by (simp add: assembleElementS_def globalStiffnessMatrixS_def kG f)
      with Inl kG I1 show ?thesis by (simp add: assembleElement_def)
    next
      case (Inr dofMap)
      have s1: "?s1[K := Grid m] = ?s1"
        using Kl m by (simp add: list_update_append1 list_update_same_conv)
      have "forS [0..<12] (\<lambda>i. forS [0..<12] (\<lambda>j.
           bindS (getS (length s) i j) (\<lambda>v. addS K (dofMap ! i) (dofMap ! j) v))) (?s1[K := Grid m])
         = (Inr (), ?s1[K := Grid (scatterAdd kG dofMap m)])"
        by (rule scatterS) (use Kl in simp_all)
      then have "forS [0..<12] (\<lambda>i. forS [0..<12] (\<lambda>j.
           bindS (getS (length s) i j) (\<lambda>v. addS K (dofMap ! i) (dofMap ! j) v))) ?s1
         = (Inr (), ?s1[K := Grid (scatterAdd kG dofMap m)])"
        unfolding s1 .
      then have run: "assembleElementS this K e s
          = (Inr (), ?s1[K := Grid (scatterAdd kG dofMap m)])"
        by (simp add: assembleElementS_def globalStiffnessMatrixS_def kG f Inr)
      have "gridCell s0 K (?s1[K := Grid (scatterAdd kG dofMap m)])"
        using unchanged_update [OF u1 K] Kl by (simp add: gridCell_def)
      moreover have "gridOf (?s1[K := Grid (scatterAdd kG dofMap m)] ! K) = scatterAdd kG dofMap m"
        using Kl by (simp add: gridOf_def)
      ultimately show ?thesis
        unfolding run g by (simp add: assembleElement_def kG Inr)
    qed
  qed
qed

lemma assembleGlobalStiffnessMatrixS_spec:
  assumes "analyzerAt s this = Some an"
  shows "unchanged s (snd (assembleGlobalStiffnessMatrixS this s))
       \<and> (case assembleGlobalStiffnessMatrix an of
            Inl e \<Rightarrow> fst (assembleGlobalStiffnessMatrixS this s) = Inl e
          | Inr Kv \<Rightarrow> fst (assembleGlobalStiffnessMatrixS this s) = Inr (length s)
                     \<and> length s < length (snd (assembleGlobalStiffnessMatrixS this s))
                     \<and> snd (assembleGlobalStiffnessMatrixS this s) ! length s = Grid Kv)"
proof -
  let ?K = "length s"
  let ?s1 = "s @ [Grid (zeros (numDOF an) (numDOF an))]"
  let ?loop = "forS (elements an) (assembleElementS this ?K) ?s1"
  have I1: "gridCell s ?K ?s1" by (simp add: gridCell_def)
  have v1: "gridOf (?s1 ! ?K) = zeros (numDOF an) (numDOF an)" by (simp add: gridOf_def)
  from forS_simulation [where I = "gridCell s ?K" and view = "\<lambda>s. gridOf (s ! ?K)"
      and body = "assembleElementS this ?K" and g = "assembleElement an" and js = "elements an",
      OF assembleElementS_sim [OF assms le_refl] I1]
  have sim: "gridCell s ?K (snd ?loop)
      \<and> (case assembleGlobalStiffnessMatrix an of
           Inl e \<Rightarrow> fst ?loop = Inl e
         | Inr q \<Rightarrow> fst ?loop = Inr () \<and> gridOf (snd ?loop ! ?K) = q)"
    unfolding v1 assembleGlobalStiffnessMatrix_def by simp
  obtain r2 s2 where l: "?loop = (r2, s2)" by (cases ?loop)
  have run: "assembleGlobalStiffnessMatrixS this s
      = (case r2 of Inl e \<Rightarrow> (Inl e, s2) | Inr _ \<Rightarrow> (Inr ?K, s2))"
    by (simp add: assembleGlobalStiffnessMatrixS_def fieldsOf_at [OF assms] zerosS_def l
        bindS_apply split: sum.splits)
  from sim l have c: "gridCell s ?K s2" by simp
  then obtain m where m: "s2 ! ?K = Grid m" and u: "unchanged s s2" and len: "?K < length s2"
    by (auto simp: gridCell_def)
  show ?thesis
  proof (cases "assembleGlobalStiffnessMatrix an")
    case (Inl e)
    with sim l have "r2 = Inl e" by simp
    with Inl u show ?thesis unfolding run by simp
  next
    case (Inr Kv)
    with sim l have "r2 = Inr ()" and "gridOf (s2 ! ?K) = Kv" by simp_all
    with Inr u len m show ?thesis unfolding run by (simp add: gridOf_def)
  qed
qed

subsection \<open>Assembly of the load vector on the store\<close>

lemma numbersCell_same:
  assumes "numbersCell s0 P s"
  shows "s[P := Numbers (numbersOf (s ! P))] = s"
  using assms by (auto simp: numbersCell_def numbersOf_def list_update_same_conv)

lemma numbersCell_update:
  assumes "numbersCell s0 P s" and "length s0 \<le> P"
  shows "numbersCell s0 P (s[P := Numbers v])"
    and "numbersOf (s[P := Numbers v] ! P) = v"
  using assms by (auto simp: numbersCell_def numbersOf_def unchanged_update)

lemma numbersCell_analyzer:
  assumes "analyzerAt s0 this = Some an" and "numbersCell s0 P s"
  shows "fieldsOf this s = (Inr an, s)"
  using assms by (auto simp: numbersCell_def intro: fieldsOf_at analyzerAt_unchanged)

lemma addNodeLoadS_sim:
  assumes an: "analyzerAt s0 this = Some an" and P: "length s0 \<le> P" and I: "numbersCell s0 P s"
  shows "numbersCell s0 P (snd (addNodeLoadS this P load s))
       \<and> (case Inr (addNodeLoad an load (numbersOf (s ! P))) of
            Inl err \<Rightarrow> fst (addNodeLoadS this P load s) = Inl err
          | Inr v \<Rightarrow> fst (addNodeLoadS this P load s) = Inr ()
                    \<and> numbersOf (snd (addNodeLoadS this P load s) ! P) = v)"
proof -
  from I obtain v where Pl: "P < length s" and v: "s ! P = Numbers v"
    by (auto simp: numbersCell_def)
  have nv: "numbersOf (s ! P) = v" by (simp add: v numbersOf_def)
  note f = numbersCell_analyzer [OF an I]
  have w: "addToS P i x s = (Inr (), s[P := Numbers (addTo v i x)])" for i x
    using Pl v by (rule addToS_at)
  have run: "addNodeLoadS this P load s = (Inr (), s[P := Numbers (addNodeLoad an load v)])"
    using numbersCell_same [OF I]
    by (simp add: addNodeLoadS_def addNodeLoad_def f w Let_def nv split: option.splits)
  show ?thesis
    unfolding run nv using numbersCell_update [OF I P] by simp
qed

lemma subtractS:
  assumes "P < length s" and "fer < length s" and "fer \<noteq> P" and "s ! fer = Numbers ferv"
  shows "forS [0..<6] (\<lambda>i.
           bindS (numberAt fer i) (\<lambda>f1.
           bindS (addToS P (iIndex * 6 + i) (- f1)) (\<lambda>_.
           bindS (numberAt fer (i + 6)) (\<lambda>f2.
             addToS P (jIndex * 6 + i) (- f2))))) (s[P := Numbers v])
       = (Inr (), s[P := Numbers (subtractFER iIndex jIndex ferv v)])"
  unfolding subtractFER_def
proof (rule forS_update_numbers)
  fix i v
  have r: "numberAt fer k (s[P := Numbers w]) = (Inr (ferv ! k), s[P := Numbers w])" for k w
    using assms by (simp add: numberAt_at)
  have w: "addToS P k x (s[P := Numbers w]) = (Inr (), s[P := Numbers (addTo w k x)])" for k x w
    using assms(1) by (simp add: addToS_at)
  show "bindS (numberAt fer i) (\<lambda>f1.
           bindS (addToS P (iIndex * 6 + i) (- f1)) (\<lambda>_.
           bindS (numberAt fer (i + 6)) (\<lambda>f2.
             addToS P (jIndex * 6 + i) (- f2)))) (s[P := Numbers v])
      = (Inr (), s[P := Numbers (addTo (addTo v (iIndex * 6 + i) (- (ferv ! i)))
                                   (jIndex * 6 + i) (- (ferv ! (i + 6))))])"
    by (simp add: r w)
qed

lemma addElementFERS_sim:
  assumes an: "analyzerAt s0 this = Some an" and P: "length s0 \<le> P" and I: "numbersCell s0 P s"
  shows "numbersCell s0 P (snd (addElementFERS this loads P e s))
       \<and> (case addElementFER an loads e (numbersOf (s ! P)) of
            Inl err \<Rightarrow> fst (addElementFERS this loads P e s) = Inl err
          | Inr v \<Rightarrow> fst (addElementFERS this loads P e s) = Inr ()
                    \<and> numbersOf (snd (addElementFERS this loads P e s) ! P) = v)"
proof -
  from I obtain v where u: "unchanged s0 s" and Pl: "P < length s" and v: "s ! P = Numbers v"
    by (auto simp: numbersCell_def)
  have nv: "numbersOf (s ! P) = v" by (simp add: v numbersOf_def)
  show ?thesis
  proof (cases "fixedEndReactions e loads")
    case (Inl err)
    then have "addElementFERS this loads P e s = (Inl err, s)"
      by (simp add: addElementFERS_def fixedEndReactionsS_def)
    with Inl I show ?thesis by (simp add: addElementFER_def)
  next
    case fer: (Inr ferv)
    let ?s1 = "s @ [Numbers ferv]"
    have I1: "numbersCell s0 P ?s1"
      using unchanged_trans [OF u, of ?s1] Pl v by (simp add: numbersCell_def nth_append)
    note f = numbersCell_analyzer [OF an I1]
    have same: "?s1[P := Numbers v] = ?s1"
      using Pl v by (simp add: list_update_append1 list_update_same_conv)
    show ?thesis
    proof (cases "\<exists>i j. nodeIndexMap an (node_id (el_iNode e)) = Some i
                      \<and> nodeIndexMap an (node_id (el_jNode e)) = Some j")
      case False
      then have "addElementFERS this loads P e s = (Inl TypeError, ?s1)"
        by (auto simp: addElementFERS_def fixedEndReactionsS_def fer f split: option.splits)
      moreover from False have "addElementFER an loads e v = Inl TypeError"
        by (auto simp: addElementFER_def fer split: option.splits)
      ultimately show ?thesis using I1 by (simp add: nv)
    next
      case True
      then obtain i j where ij: "nodeIndexMap an (node_id (el_iNode e)) = Some i"
          "nodeIndexMap an (node_id (el_jNode e)) = Some j"
        by blast
      have "forS [0..<6] (\<lambda>k.
           bindS (numberAt (length s) k) (\<lambda>f1.
           bindS (addToS P (i * 6 + k) (- f1)) (\<lambda>_.
           bindS (numberAt (length s) (k + 6)) (\<lambda>f2.
             addToS P (j * 6 + k) (- f2))))) (?s1[P := Numbers v])
         = (Inr (), ?s1[P := Numbers (subtractFER i j ferv v)])"
        by (rule subtractS) (use Pl in simp_all)
      then have "forS [0..<6] (\<lambda>k.
           bindS (numberAt (length s) k) (\<lambda>f1.
           bindS (addToS P (i * 6 + k) (- f1)) (\<lambda>_.
           bindS (numberAt (length s) (k + 6)) (\<lambda>f2.
             addToS P (j * 6 + k) (- f2))))) ?s1
         = (Inr (), ?s1[P := Numbers (subtractFER i j ferv v)])"
        unfolding same .
      then have run: "addElementFERS this loads P e s
          = (Inr (), ?s1[P := Numbers (subtractFER i j ferv v)])"
        by (simp add: addElementFERS_def fixedEndReactionsS_def fer f ij)
      have "addElementFER an loads e v = Inr (subtractFER i j ferv v)"
        by (simp add: addElementFER_def fer ij)
      then show ?thesis
        unfolding run nv using numbersCell_update [OF I1 P] by simp
    qed
  qed
qed

lemma assembleLoadVectorS_spec:
  assumes "analyzerAt s this = Some an"
  shows "unchanged s (snd (assembleLoadVectorS this loadCase s))
       \<and> (case assembleLoadVector an loadCase of
            Inl e \<Rightarrow> fst (assembleLoadVectorS this loadCase s) = Inl e
          | Inr Pv \<Rightarrow> fst (assembleLoadVectorS this loadCase s) = Inr (length s)
                     \<and> length s < length (snd (assembleLoadVectorS this loadCase s))
                     \<and> snd (assembleLoadVectorS this loadCase s) ! length s = Numbers Pv)"
proof -
  let ?P = "length s"
  let ?s1 = "s @ [Numbers (replicate (numDOF an) 0)]"
  let ?loop1 = "forS (lc_nodeLoads loadCase) (addNodeLoadS this ?P) ?s1"
  define P1 where "P1 = fold (addNodeLoad an) (lc_nodeLoads loadCase) (replicate (numDOF an) 0)"
  have I1: "numbersCell s ?P ?s1" by (simp add: numbersCell_def)
  have v1: "numbersOf (?s1 ! ?P) = replicate (numDOF an) 0" by (simp add: numbersOf_def)
  from forS_simulation [where I = "numbersCell s ?P" and view = "\<lambda>s. numbersOf (s ! ?P)"
      and body = "addNodeLoadS this ?P" and g = "\<lambda>load v. Inr (addNodeLoad an load v)"
      and js = "lc_nodeLoads loadCase", OF addNodeLoadS_sim [OF assms le_refl] I1]
  have sim1: "numbersCell s ?P (snd ?loop1) \<and> fst ?loop1 = Inr ()
      \<and> numbersOf (snd ?loop1 ! ?P) = P1"
    unfolding v1 foldE_pure P1_def by simp
  obtain s2 where l1: "?loop1 = (Inr (), s2)"
    using sim1 by (cases ?loop1) simp
  with sim1 have I2: "numbersCell s ?P s2" and v2: "numbersOf (s2 ! ?P) = P1" by simp_all
  let ?loop2 = "forS (elements an) (addElementFERS this (lc_memberLoads loadCase) ?P) s2"
  from forS_simulation [where I = "numbersCell s ?P" and view = "\<lambda>s. numbersOf (s ! ?P)"
      and body = "addElementFERS this (lc_memberLoads loadCase) ?P"
      and g = "addElementFER an (lc_memberLoads loadCase)"
      and js = "elements an", OF addElementFERS_sim [OF assms le_refl] I2]
  have sim2: "numbersCell s ?P (snd ?loop2)
      \<and> (case assembleLoadVector an loadCase of
           Inl e \<Rightarrow> fst ?loop2 = Inl e
         | Inr q \<Rightarrow> fst ?loop2 = Inr () \<and> numbersOf (snd ?loop2 ! ?P) = q)"
    unfolding v2 assembleLoadVector_def Let_def P1_def by simp
  obtain r3 s3 where l2: "?loop2 = (r3, s3)" by (cases ?loop2)
  have run: "assembleLoadVectorS this loadCase s
      = (case r3 of Inl e \<Rightarrow> (Inl e, s3) | Inr _ \<Rightarrow> (Inr ?P, s3))"
    by (simp add: assembleLoadVectorS_def fieldsOf_at [OF assms] l1 l2 bindS_apply
        split: sum.splits)
  from sim2 l2 have "numbersCell s ?P s3" by simp
  then obtain v where v: "s3 ! ?P = Numbers v" and u: "unchanged s s3" and len: "?P < length s3"
    by (auto simp: numbersCell_def)
  show ?thesis
  proof (cases "assembleLoadVector an loadCase")
    case (Inl e)
    with sim2 l2 have "r3 = Inl e" by simp
    with Inl u show ?thesis unfolding run by simp
  next
    case (Inr Pv)
    with sim2 l2 have "r3 = Inr ()" and "numbersOf (s3 ! ?P) = Pv" by simp_all
    with Inr u len v show ?thesis unfolding run by (simp add: numbersOf_def)
  qed
qed

subsection \<open>The load vector of a combination on the store\<close>

lemma accumulateS:
  assumes "P < length s" and "caseP < length s" and "caseP \<noteq> P" and "s ! caseP = Numbers cv"
  shows "forS [0..<n] (\<lambda>i. bindS (numberAt caseP i) (\<lambda>c. addToS P i (factor * c)))
           (s[P := Numbers v])
       = (Inr (), s[P := Numbers (fold (\<lambda>i P. P[i := P ! i + factor * cv ! i]) [0..<n] v)])"
proof (rule forS_update_numbers)
  fix i v
  have "numberAt caseP i (s[P := Numbers v]) = (Inr (cv ! i), s[P := Numbers v])"
    using assms by (simp add: numberAt_at)
  moreover have "addToS P i (factor * cv ! i) (s[P := Numbers v])
      = (Inr (), s[P := Numbers (v[i := v ! i + factor * cv ! i])])"
    using assms(1) by (simp add: addToS_at addTo_def)
  ultimately show "bindS (numberAt caseP i) (\<lambda>c. addToS P i (factor * c)) (s[P := Numbers v])
      = (Inr (), s[P := Numbers (v[i := v ! i + factor * cv ! i])])"
    by simp
qed

lemma addCaseS_sim:
  assumes an: "analyzerAt s0 this = Some an" and P: "length s0 \<le> P" and I: "numbersCell s0 P s"
  shows "numbersCell s0 P (snd (addCaseS this P cf s))
       \<and> (case addCase an cf (numbersOf (s ! P)) of
            Inl err \<Rightarrow> fst (addCaseS this P cf s) = Inl err
          | Inr v \<Rightarrow> fst (addCaseS this P cf s) = Inr ()
                    \<and> numbersOf (snd (addCaseS this P cf s) ! P) = v)"
proof -
  obtain caseName factor where cf: "cf = (caseName, factor)" by (cases cf)
  from I obtain v where u: "unchanged s0 s" and Pl: "P < length s" and v: "s ! P = Numbers v"
    by (auto simp: numbersCell_def)
  have nv: "numbersOf (s ! P) = v" by (simp add: v numbersOf_def)
  note f = numbersCell_analyzer [OF an I]
  show ?thesis
  proof (cases "find (\<lambda>lc. lc_name lc = caseName) (loadCases (an_model an))")
    case None
    then have "addCaseS this P cf s = (Inr (), s)"
      by (simp add: addCaseS_def cf f)
    with None I show ?thesis by (simp add: addCase_def cf)
  next
    case (Some loadCase)
    let ?call = "assembleLoadVectorS this loadCase s"
    obtain r1 s1 where c: "?call = (r1, s1)" by (cases ?call)
    from assembleLoadVectorS_spec [OF analyzerAt_unchanged [OF an u], of loadCase,
        unfolded c fst_conv snd_conv]
    have u1: "unchanged s s1"
      and r: "case assembleLoadVector an loadCase of
            Inl e \<Rightarrow> r1 = Inl e
          | Inr Pv \<Rightarrow> r1 = Inr (length s) \<and> length s < length s1 \<and> s1 ! length s = Numbers Pv"
      by simp_all
    have I1: "numbersCell s0 P s1"
      using unchanged_trans [OF u u1] unchanged_less [OF u1 Pl] unchanged_nth [OF u1 Pl] v
      by (simp add: numbersCell_def)
    have v1: "s1 ! P = Numbers v" using unchanged_nth [OF u1 Pl] v by simp
    have Pl1: "P < length s1" using unchanged_less [OF u1 Pl] .
    show ?thesis
    proof (cases "assembleLoadVector an loadCase")
      case (Inl e)
      with r have "r1 = Inl e" by simp
      then have "addCaseS this P cf s = (Inl e, s1)"
        by (simp add: addCaseS_def cf f Some c)
      with Inl I1 show ?thesis by (simp add: addCase_def cf Some)
    next
      case (Inr cv)
      with r have r1: "r1 = Inr (length s)" and cl: "length s < length s1"
        and cv: "s1 ! length s = Numbers cv"
        by simp_all
      have same: "s1[P := Numbers v] = s1"
        using Pl1 v1 by (simp add: list_update_same_conv)
      have "forS [0..<numDOF an] (\<lambda>i. bindS (numberAt (length s) i) (\<lambda>c. addToS P i (factor * c)))
           (s1[P := Numbers v])
         = (Inr (), s1[P := Numbers (fold (\<lambda>i P. P[i := P ! i + factor * cv ! i])
                                         [0..<numDOF an] v)])"
        using Pl1 cl _ cv by (rule accumulateS) (use Pl in simp)
      then have "forS [0..<numDOF an] (\<lambda>i. bindS (numberAt (length s) i) (\<lambda>c. addToS P i (factor * c)))
           s1
         = (Inr (), s1[P := Numbers (fold (\<lambda>i P. P[i := P ! i + factor * cv ! i])
                                         [0..<numDOF an] v)])"
        unfolding same .
      then have run: "addCaseS this P cf s
          = (Inr (), s1[P := Numbers (fold (\<lambda>i P. P[i := P ! i + factor * cv ! i])
                                         [0..<numDOF an] v)])"
        by (simp add: addCaseS_def cf f Some c r1)
      have "addCase an cf v
          = Inr (fold (\<lambda>i P. P[i := P ! i + factor * cv ! i]) [0..<numDOF an] v)"
        by (simp add: addCase_def cf Some Inr)
      then show ?thesis
        unfolding run nv using numbersCell_update [OF I1 P] by simp
    qed
  qed
qed

lemma combinedLoadVectorS_spec:
  assumes "analyzerAt s this = Some an"
  shows "unchanged s (snd (combinedLoadVectorS this combo s))
       \<and> (case combinedLoadVector an combo of
            Inl e \<Rightarrow> fst (combinedLoadVectorS this combo s) = Inl e
          | Inr Pv \<Rightarrow> fst (combinedLoadVectorS this combo s) = Inr (length s)
                     \<and> length s < length (snd (combinedLoadVectorS this combo s))
                     \<and> snd (combinedLoadVectorS this combo s) ! length s = Numbers Pv)"
proof -
  let ?P = "length s"
  let ?s1 = "s @ [Numbers (replicate (numDOF an) 0)]"
  let ?loop = "forS (combo_factors combo) (addCaseS this ?P) ?s1"
  have I1: "numbersCell s ?P ?s1" by (simp add: numbersCell_def)
  have v1: "numbersOf (?s1 ! ?P) = replicate (numDOF an) 0" by (simp add: numbersOf_def)
  from forS_simulation [where I = "numbersCell s ?P" and view = "\<lambda>s. numbersOf (s ! ?P)"
      and body = "addCaseS this ?P" and g = "addCase an"
      and js = "combo_factors combo", OF addCaseS_sim [OF assms le_refl] I1]
  have sim: "numbersCell s ?P (snd ?loop)
      \<and> (case combinedLoadVector an combo of
           Inl e \<Rightarrow> fst ?loop = Inl e
         | Inr q \<Rightarrow> fst ?loop = Inr () \<and> numbersOf (snd ?loop ! ?P) = q)"
    unfolding v1 combinedLoadVector_def by simp
  obtain r2 s2 where l: "?loop = (r2, s2)" by (cases ?loop)
  have run: "combinedLoadVectorS this combo s
      = (case r2 of Inl e \<Rightarrow> (Inl e, s2) | Inr _ \<Rightarrow> (Inr ?P, s2))"
    by (simp add: combinedLoadVectorS_def fieldsOf_at [OF assms] l bindS_apply split: sum.splits)
  from sim l have "numbersCell s ?P s2" by simp
  then obtain v where v: "s2 ! ?P = Numbers v" and u: "unchanged s s2" and len: "?P < length s2"
    by (auto simp: numbersCell_def)
  show ?thesis
  proof (cases "combinedLoadVector an combo")
    case (Inl e)
    with sim l have "r2 = Inl e" by simp
    with Inl u show ?thesis unfolding run by simp
  next
    case (Inr Pv)
    with sim l have "r2 = Inr ()" and "numbersOf (s2 ! ?P) = Pv" by simp_all
    with Inr u len v show ?thesis unfolding run by (simp add: numbersOf_def)
  qed
qed

subsection \<open>The vector operations of the solution on the store\<close>

lemma setVectorS_at:
  assumes "D < length s" and "s ! D = Numbers dv"
    and "idx < length s" and "s ! idx = Indices iv" and "idx \<noteq> D"
    and "vals < length s" and "s ! vals = Numbers vv" and "vals \<noteq> D"
  shows "setVectorS D idx vals s = (Inr (), s[D := Numbers (setVector dv iv vv)])"
proof -
  have same: "s[D := Numbers dv] = s"
    using assms(1,2) by (simp add: list_update_same_conv)
  have "forS [0..<length iv] (\<lambda>i. bindS (readIndices idx) (\<lambda>idx.
          bindS (numberAt vals i) (\<lambda>v. setNumberAt D (idx ! i) v))) (s[D := Numbers dv])
      = (Inr (), s[D := Numbers (fold (\<lambda>i v. v[iv ! i := vv ! i]) [0..<length iv] dv)])"
  proof (rule forS_update_numbers)
    fix i w
    have "readIndices idx (s[D := Numbers w]) = (Inr iv, s[D := Numbers w])"
      using assms by (simp add: readIndices_at)
    moreover have "numberAt vals i (s[D := Numbers w]) = (Inr (vv ! i), s[D := Numbers w])"
      using assms by (simp add: numberAt_at)
    moreover have "setNumberAt D (iv ! i) (vv ! i) (s[D := Numbers w])
        = (Inr (), s[D := Numbers (w[iv ! i := vv ! i])])"
      using assms(1) by (simp add: setNumberAt_at)
    ultimately show "bindS (readIndices idx) (\<lambda>idx.
          bindS (numberAt vals i) (\<lambda>v. setNumberAt D (idx ! i) v)) (s[D := Numbers w])
        = (Inr (), s[D := Numbers (w[iv ! i := vv ! i])])"
      by simp
  qed
  then show ?thesis
    unfolding same using assms(3,4) by (simp add: setVectorS_def readIndices_at setVector_def)
qed

lemma reactionsS:
  assumes "R < length s" and "P < length s" and "P \<noteq> R" and "s ! P = Numbers pv"
  shows "forS [0..<n] (\<lambda>i. bindS (numberAt P i) (\<lambda>p. addToS R i (- p))) (s[R := Numbers r])
       = (Inr (), s[R := Numbers (fold (\<lambda>i r. r[i := r ! i - pv ! i]) [0..<n] r)])"
proof (rule forS_update_numbers)
  fix i r
  have "numberAt P i (s[R := Numbers r]) = (Inr (pv ! i), s[R := Numbers r])"
    using assms by (simp add: numberAt_at)
  moreover have "addToS R i (- (pv ! i)) (s[R := Numbers r])
      = (Inr (), s[R := Numbers (r[i := r ! i - pv ! i])])"
    using assms(1) by (simp add: addToS_at addTo_def)
  ultimately show "bindS (numberAt P i) (\<lambda>p. addToS R i (- p)) (s[R := Numbers r])
      = (Inr (), s[R := Numbers (r[i := r ! i - pv ! i])])"
    by simp
qed

lemma subMatrixS_at:
  assumes "a < length s" and "s ! a = Grid m" and "r < length s" and "s ! r = Indices ri"
    and "c < length s" and "s ! c = Indices ci"
  shows "subMatrixS a r c s = (Inr (length s), s @ [Grid (subMatrix m ri ci)])"
  using assms by (simp add: subMatrixS_def readGrid_at readIndices_at)

lemma extractVectorS_at:
  assumes "a < length s" and "s ! a = Numbers v" and "r < length s" and "s ! r = Indices ri"
  shows "extractVectorS a r s = (Inr (length s), s @ [Numbers (extractVector v ri)])"
  using assms by (simp add: extractVectorS_def readNumbers_at readIndices_at)

lemma multiplyVectorS_at:
  assumes "a < length s" and "s ! a = Grid m" and "b < length s" and "s ! b = Numbers v"
  shows "multiplyVectorS a b s
       = (case multiplyVector m v of Inl e \<Rightarrow> (Inl e, s)
          | Inr r \<Rightarrow> (Inr (length s), s @ [Numbers r]))"
  using assms by (simp add: multiplyVectorS_def readGrid_at readNumbers_at split: sum.splits)

subsection \<open>The solution of the system on the store\<close>

lemma solveSystemS_spec:
  assumes an: "analyzerAt s this = Some an"
  shows "unchanged s (snd (solveSystemS this combo s))
       \<and> (case solveSystem an combo of
            Inl e \<Rightarrow> fst (solveSystemS this combo s) = Inl e
          | Inr sol \<Rightarrow>
              (\<exists>D R. fst (solveSystemS this combo s) = Inr (D, R)
                 \<and> D < length (snd (solveSystemS this combo s))
                 \<and> snd (solveSystemS this combo s) ! D = Numbers (sol_D sol)
                 \<and> R < length (snd (solveSystemS this combo s))
                 \<and> snd (solveSystemS this combo s) ! R = Numbers (sol_reactions sol)))"
proof -
  from an obtain obj where o: "this < length s" "s ! this = Instance obj"
      "obj_freeDOF obj < length s" "s ! obj_freeDOF obj = Indices (freeDOF an)"
      and n: "numDOF an = obj_numDOF obj"
    unfolding analyzerAt_Some by (metis Analyzer.select_convs(8))
  let ?fr = "obj_freeDOF obj"
  let ?free = "freeDOF an"
  obtain r1 s1 where a1: "assembleGlobalStiffnessMatrixS this s = (r1, s1)"
    by (cases "assembleGlobalStiffnessMatrixS this s")
  from assembleGlobalStiffnessMatrixS_spec [OF an, unfolded a1 fst_conv snd_conv]
  have u1: "unchanged s s1"
    and c1: "case assembleGlobalStiffnessMatrix an of
            Inl e \<Rightarrow> r1 = Inl e
          | Inr Kv \<Rightarrow> r1 = Inr (length s) \<and> length s < length s1 \<and> s1 ! length s = Grid Kv"
    by simp_all
  show ?thesis
  proof (cases "assembleGlobalStiffnessMatrix an")
    case (Inl e)
    with c1 have "r1 = Inl e" by simp
    then have "solveSystemS this combo s = (Inl e, s1)"
      by (simp add: solveSystemS_def a1)
    with Inl u1 show ?thesis by (simp add: solveSystem_def)
  next
    case K: (Inr Kv)
    define K where "K = length s"
    from K c1 have r1: "r1 = Inr K" and Kl1: "K < length s1" and Kc1: "s1 ! K = Grid Kv"
      by (simp_all add: K_def)
    note an1 = analyzerAt_unchanged [OF an u1]
    obtain r2 s2 where a2: "combinedLoadVectorS this combo s1 = (r2, s2)"
      by (cases "combinedLoadVectorS this combo s1")
    from combinedLoadVectorS_spec [OF an1, of combo, unfolded a2 fst_conv snd_conv]
    have u2: "unchanged s1 s2"
      and c2: "case combinedLoadVector an combo of
            Inl e \<Rightarrow> r2 = Inl e
          | Inr Pv \<Rightarrow> r2 = Inr (length s1) \<and> length s1 < length s2 \<and> s2 ! length s1 = Numbers Pv"
      by simp_all
    note us2 = unchanged_trans [OF u1 u2]
    show ?thesis
    proof (cases "combinedLoadVector an combo")
      case (Inl e)
      with c2 have "r2 = Inl e" by simp
      then have "solveSystemS this combo s = (Inl e, s2)"
        by (simp add: solveSystemS_def a1 r1 a2)
      with Inl K us2 show ?thesis by (simp add: solveSystem_def)
    next
      case P: (Inr Pv)
      define P where "P = length s1"
      from P c2 have r2: "r2 = Inr P" and Pl2: "P < length s2" and Pc2: "s2 ! P = Numbers Pv"
        by (simp_all add: P_def)
      have KP: "K < P" using Kl1 by (simp add: P_def)
      have Kl2: "K < length s2" and Kc2: "s2 ! K = Grid Kv"
        using unchanged_less [OF u2 Kl1] unchanged_nth [OF u2 Kl1] Kc1 by simp_all
      have t2: "this < length s2" "s2 ! this = Instance obj"
        and f2: "?fr < length s2" "s2 ! ?fr = Indices ?free"
        using unchanged_less [OF us2] unchanged_nth [OF us2] o by simp_all
      have frK: "?fr < K" using o(3) by (simp add: K_def)
      define K11v where "K11v = subMatrix Kv ?free ?free"
      define P1v where "P1v = extractVector Pv ?free"
      define s3 where "s3 = s2 @ [Grid K11v]"
      define s4 where "s4 = s3 @ [Numbers P1v]"
      have rd: "readInstance this s2 = (Inr obj, s2)"
        using t2 by (rule readInstance_at)
      have sub: "subMatrixS K ?fr ?fr s2 = (Inr (length s2), s3)"
        unfolding s3_def K11v_def using Kl2 Kc2 f2 f2 by (rule subMatrixS_at)
      have l3: "length s3 = Suc (length s2)" by (simp add: s3_def)
      have ext: "extractVectorS P ?fr s3 = (Inr (length s3), s4)"
        unfolding s4_def P1v_def
        by (rule extractVectorS_at) (use Pl2 Pc2 f2 in \<open>simp_all add: s3_def nth_append\<close>)
      have l4: "length s4 = Suc (Suc (length s2))" by (simp add: s4_def s3_def)
      have u4: "unchanged s2 s4" by (simp add: s4_def s3_def)
      have cells4: "length s2 < length s4" "s4 ! length s2 = Grid K11v"
          "length s3 < length s4" "s4 ! length s3 = Numbers P1v"
        by (simp_all add: s4_def s3_def nth_append)
      obtain r5 s5 where a5: "solveS (length s2) (length s3) s4 = (r5, s5)"
        by (cases "solveS (length s2) (length s3) s4")
      from solveS_spec [OF cells4, unfolded a5 fst_conv snd_conv] obtain junk
        where s5: "s5 = s4 @ junk"
          and c5: "case solve K11v P1v of
              Inl e \<Rightarrow> r5 = Inl e
            | Inr xv \<Rightarrow> r5 = Inr (Suc (length s4)) \<and> Suc (length s4) < length (s4 @ junk)
                       \<and> (s4 @ junk) ! Suc (length s4) = Numbers xv"
        by blast
      have u5: "unchanged s4 s5" by (simp add: s5)
      note us5 = unchanged_trans [OF us2 unchanged_trans [OF u4 u5]]
      note u25 = unchanged_trans [OF u4 u5]
      have pure: "solveSystem an combo
          = bindE (solve K11v P1v) (\<lambda>D1.
              let D = setVector (replicate (numDOF an) 0) ?free D1 in
              bindE (multiplyVector Kv D) (\<lambda>KD.
                let reactions = fold (\<lambda>i r. r[i := r ! i - Pv ! i]) [0..<numDOF an] KD
                in Inr \<lparr>sol_K = Kv, sol_P = Pv, sol_D = D, sol_reactions = reactions\<rparr>))"
        by (simp add: solveSystem_def K P Let_def K11v_def P1v_def)
      show ?thesis
      proof (cases "solve K11v P1v")
        case (Inl e)
        with c5 have "r5 = Inl e" by simp
        then have "solveSystemS this combo s = (Inl e, s5)"
          by (simp add: solveSystemS_def a1 r1 a2 r2 rd sub ext a5)
        with Inl us5 show ?thesis by (simp add: pure)
      next
        case D1: (Inr D1v)
        define D1 where "D1 = Suc (length s4)"
        from D1 c5 have r5: "r5 = Inr D1" and D1l: "D1 < length s5" and D1c: "s5 ! D1 = Numbers D1v"
          by (simp_all add: D1_def s5)
        define Dv where "Dv = setVector (replicate (numDOF an) 0) ?free D1v"
        define s6 where "s6 = s5 @ [Numbers (replicate (obj_numDOF obj) 0)]"
        define s7 where "s7 = s5 @ [Numbers Dv]"
        have old5: "a < length s2 \<Longrightarrow> a < length s5 \<and> s5 ! a = s2 ! a" for a
          using unchanged_less [OF u25] unchanged_nth [OF u25] by simp
        have setv: "setVectorS (length s5) ?fr D1 s6 = (Inr (), s7)"
        proof -
          have "setVectorS (length s5) ?fr D1 s6
              = (Inr (), s6[length s5 := Numbers (setVector (replicate (obj_numDOF obj) 0) ?free D1v)])"
            by (rule setVectorS_at)
              (use old5 [OF f2(1)] f2 D1l D1c in \<open>simp_all add: s6_def nth_append\<close>)
          then show ?thesis by (simp add: s6_def s7_def Dv_def n)
        qed
        have K7: "K < length s7" "s7 ! K = Grid Kv"
          using old5 [OF Kl2] Kc2 by (simp_all add: s7_def nth_append)
        have D7: "length s5 < length s7" "s7 ! length s5 = Numbers Dv"
          by (simp_all add: s7_def)
        have P7: "P < length s7" "s7 ! P = Numbers Pv"
          using old5 [OF Pl2] Pc2 by (simp_all add: s7_def nth_append)
        note mult = multiplyVectorS_at [OF K7 D7]
        have us7: "unchanged s s7"
          using us5 by (rule unchanged_trans) (simp add: s7_def)
        show ?thesis
        proof (cases "multiplyVector Kv Dv")
          case (Inl e)
          with mult have "multiplyVectorS K (length s5) s7 = (Inl e, s7)" by simp
          then have "solveSystemS this combo s = (Inl e, s7)"
            by (simp add: solveSystemS_def a1 r1 a2 r2 rd sub ext a5 r5 s6_def [symmetric] setv)
          with Inl us7 D1 show ?thesis by (simp add: pure Dv_def)
        next
          case KD: (Inr KD)
          define s8 where "s8 = s7 @ [Numbers KD]"
          define reactions where
            "reactions = fold (\<lambda>i r. r[i := r ! i - Pv ! i]) [0..<numDOF an] KD"
          define s9 where "s9 = s7 @ [Numbers reactions]"
          from KD mult have m: "multiplyVectorS K (length s5) s7 = (Inr (length s7), s8)"
            by (simp add: s8_def)
          have loop: "forS [0..<obj_numDOF obj] (\<lambda>i. bindS (numberAt P i) (\<lambda>p.
                addToS (length s7) i (- p))) s8 = (Inr (), s9)"
          proof -
            have "forS [0..<obj_numDOF obj] (\<lambda>i. bindS (numberAt P i) (\<lambda>p.
                addToS (length s7) i (- p))) (s8[length s7 := Numbers KD])
              = (Inr (), s8[length s7 := Numbers (fold (\<lambda>i r. r[i := r ! i - Pv ! i])
                                                  [0..<obj_numDOF obj] KD)])"
              by (rule reactionsS) (use P7 in \<open>simp_all add: s8_def nth_append\<close>)
            then show ?thesis by (simp add: s8_def s9_def reactions_def n)
          qed
          have run: "solveSystemS this combo s = (Inr (length s5, length s7), s9)"
            by (simp add: solveSystemS_def a1 r1 a2 r2 rd sub ext a5 r5 s6_def [symmetric] setv
                m loop)
          have sol: "solveSystem an combo
              = Inr \<lparr>sol_K = Kv, sol_P = Pv, sol_D = Dv, sol_reactions = reactions\<rparr>"
            by (simp add: pure D1 Dv_def [symmetric] KD reactions_def Let_def)
          have "unchanged s s9"
            using us7 by (rule unchanged_trans) (simp add: s9_def)
          moreover have "length s5 < length s9" "s9 ! length s5 = Numbers Dv"
              "length s7 < length s9" "s9 ! length s7 = Numbers reactions"
            by (simp_all add: s9_def s7_def nth_append)
          ultimately show ?thesis
            unfolding run sol by simp
        qed
      qed
    qed
  qed
qed

subsection \<open>analyze on the store\<close>

lemma analyzeCombinationS_spec:
  assumes an: "analyzerAt s this = Some an"
  shows "unchanged s (snd (analyzeCombinationS this name combo s))"
    and "fst (analyzeCombinationS this name combo s) = analyzeCombination an name combo"
proof -
  obtain r1 s1 where a1: "solveSystemS this combo s = (r1, s1)"
    by (cases "solveSystemS this combo s")
  from solveSystemS_spec [OF an, of combo, unfolded a1 fst_conv snd_conv]
  have u1: "unchanged s s1"
    and c1: "case solveSystem an combo of
            Inl e \<Rightarrow> r1 = Inl e
          | Inr sol \<Rightarrow>
              (\<exists>D R. r1 = Inr (D, R) \<and> D < length s1 \<and> s1 ! D = Numbers (sol_D sol)
                 \<and> R < length s1 \<and> s1 ! R = Numbers (sol_reactions sol))"
    by simp_all
  have "unchanged s (snd (analyzeCombinationS this name combo s))
      \<and> fst (analyzeCombinationS this name combo s) = analyzeCombination an name combo"
  proof (cases "solveSystem an combo")
    case (Inl e)
    with c1 have "r1 = Inl e" by simp
    then have "analyzeCombinationS this name combo s = (Inl e, s1)"
      by (simp add: analyzeCombinationS_def a1)
    with Inl u1 show ?thesis by (simp add: analyzeCombination_def)
  next
    case (Inr sol)
    with c1 obtain D R where r1: "r1 = Inr (D, R)"
      and D: "D < length s1" "s1 ! D = Numbers (sol_D sol)"
      and R: "R < length s1" "s1 ! R = Numbers (sol_reactions sol)"
      by auto
    have f: "fieldsOf this s1 = (Inr an, s1)"
      using analyzerAt_unchanged [OF an u1] by (rule fieldsOf_at)
    have rd: "readNumbers D s1 = (Inr (sol_D sol), s1)"
        "readNumbers R s1 = (Inr (sol_reactions sol), s1)"
      using D R by (simp_all add: readNumbers_at)
    have "analyzeCombinationS this name combo s
        = (analyzeCombination an name combo, s1)"
      by (simp add: analyzeCombinationS_def a1 r1 f rd analyzeCombination_def Inr Let_def
          bindS_apply bindE_def split: sum.splits)
    with u1 show ?thesis by simp
  qed
  then show "unchanged s (snd (analyzeCombinationS this name combo s))"
    and "fst (analyzeCombinationS this name combo s) = analyzeCombination an name combo"
    by simp_all
qed

lemma analyzeS_spec:
  assumes an: "analyzerAt s this = Some an"
  shows "unchanged s (snd (analyzeS this name s))"
    and "fst (analyzeS this name s) = fst (analyze an name)"
proof -
  note f = fieldsOf_at [OF an]
  have "unchanged s (snd (analyzeS this name s))
      \<and> fst (analyzeS this name s) = fst (analyze an name)"
  proof (cases "find (\<lambda>c. combo_name c = name) (loadCombinations (an_model an))")
    case None
    then show ?thesis
      by (simp add: analyzeS_def f analyze_def analyzeResult_def)
  next
    case (Some combo)
    obtain r1 s1 where a: "analyzeCombinationS this name combo s = (r1, s1)"
      by (cases "analyzeCombinationS this name combo s")
    from analyzeCombinationS_spec [OF an, of name combo] a
    have "unchanged s s1" and "r1 = analyzeCombination an name combo" by simp_all
    then show ?thesis
      by (simp add: analyzeS_def f Some a analyze_def analyzeResult_def split: sum.splits)
  qed
  then show "unchanged s (snd (analyzeS this name s))"
    and "fst (analyzeS this name s) = fst (analyze an name)"
    by simp_all
qed

lemma new_AnalyzerS_spec:
  assumes "new_Analyzer model = Inr an"
  shows "\<exists>s'. new_AnalyzerS model s = (Inr (length s + 2), s') \<and> unchanged s s'
            \<and> analyzerAt s' (length s + 2) = Some an"
proof -
  let ?obj = "\<lparr>obj_model = an_model an, obj_nodeMap = nodeMap an,
          obj_nodeIndexMap = nodeIndexMap an, obj_materialMap = materialMap an,
          obj_sectionMap = sectionMap an, obj_supportMap = supportMap an,
          obj_elements = elements an, obj_numDOF = numDOF an,
          obj_freeDOF = length s, obj_fixedDOF = Suc (length s)\<rparr>"
  let ?s' = "s @ [Indices (freeDOF an), Indices (fixedDOF an), Instance ?obj]"
  have "new_AnalyzerS model s = (Inr (length s + 2), ?s')"
    by (simp add: new_AnalyzerS_def assms)
  moreover have "analyzerAt ?s' (length s + 2) = Some an"
    unfolding analyzerAt_Some by (rule exI [of _ ?obj]) (simp add: nth_append)
  ultimately show ?thesis by (intro exI [of _ ?s']) simp
qed


lemma ex_store: "analyzerAt exStore 2 = Some exAnalyzer"
proof -
  from new_AnalyzerS_spec [OF ex_new_Analyzer, of "[]"]
  show ?thesis by (auto simp: exStore_def numeral_2_eq_2)
qed

text \<open>
  Claim C9. On the store, where the updates in place of the code are updates of
  cells: for every store and every reference to an analyzer object in it, a call of
  \<open>analyze\<close> leaves every cell of the store as it was (the analyzer object with its
  fields, its arrays \<open>freeDOF\<close> and \<open>fixedDOF\<close>, and every other object that existed) and
  only appends cells; a second call with the same combination name on the store the
  first call leaves returns the same result and again leaves those cells as they
  were. The result is the one of \<open>analyze\<close> on values.
\<close>

theorem analyze_leaves_store:
  assumes "analyzerAt s this = Some an"
  shows "(let (r1, s1) = analyzeS this name s; (r2, s2) = analyzeS this name s1
          in r2 = r1 \<and> r1 = fst (analyze an name)
             \<and> take (length s) s1 = s \<and> analyzerAt s1 this = Some an
             \<and> take (length s) s2 = s \<and> analyzerAt s2 this = Some an)"
proof -
  obtain r1 s1 where a1: "analyzeS this name s = (r1, s1)" by (cases "analyzeS this name s")
  obtain r2 s2 where a2: "analyzeS this name s1 = (r2, s2)" by (cases "analyzeS this name s1")
  from analyzeS_spec [OF assms, of name] a1
  have u1: "unchanged s s1" and r1: "r1 = fst (analyze an name)" by simp_all
  note an1 = analyzerAt_unchanged [OF assms u1]
  from analyzeS_spec [OF an1, of name] a2
  have u2: "unchanged s1 s2" and r2: "r2 = fst (analyze an name)" by simp_all
  note u12 = unchanged_trans [OF u1 u2]
  note an2 = analyzerAt_unchanged [OF an1 u2]
  from u1 u12 have "take (length s) s1 = s" "take (length s) s2 = s"
    by (simp_all add: unchanged_def)
  with r1 r2 an1 an2 show ?thesis by (simp add: a1 a2)
qed

theorem analyze_leaves_store_witness:
  "analyzerAt exStore 2 = Some exAnalyzer
   \<and> (let (r1, s1) = analyzeS 2 ''C1'' exStore; (r2, s2) = analyzeS 2 ''C1'' s1
      in r2 = r1 \<and> r1 = fst (analyze exAnalyzer ''C1'')
         \<and> take (length exStore) s1 = exStore \<and> analyzerAt s1 2 = Some exAnalyzer
         \<and> take (length exStore) s2 = exStore \<and> analyzerAt s2 2 = Some exAnalyzer)"
  using analyze_leaves_store [OF ex_store, of "''C1''"] ex_store by simp

end
